theory Spec2Isabelle
  imports Complex_Main "HOL-Library.Sublist"
begin

section \<open>Python values, exceptions and observable effects\<close>

text \<open>
  The two scripts \<^verbatim>\<open>find_addr.py\<close> and \<^verbatim>\<open>find_marketplace.py\<close> run \<^verbatim>\<open>curl\<close>
  through \<^verbatim>\<open>subprocess.run\<close>, look at its standard output, print, and sleep.
  Everything they do that can be observed from outside is recorded in a trace of events.
  A Python call either returns a value or raises; \<open>Inl\<close> is the raised exception.
  Only exceptions of class \<^verbatim>\<open>Exception\<close> are modelled (what \<^verbatim>\<open>subprocess.run\<close>,
  \<^verbatim>\<open>json.loads\<close> and the operations on the parsed value raise by themselves);
  \<^verbatim>\<open>print\<close> and \<^verbatim>\<open>time.sleep\<close> are taken not to raise.
\<close>

datatype exn = Exn (exn_class: string) (exn_msg: string)

text \<open>
  The value \<^verbatim>\<open>json.loads\<close> returns. A float is carried as the two things the scripts
  can observe of it: its truth value and its \<^verbatim>\<open>str()\<close>. A dict is an association list
  read with \<open>map_of\<close>.
\<close>

datatype json =
    JNull
  | JBool bool
  | JInt int
  | JFloat bool string
  | JStr string
  | JArr "json list"
  | JObj "(string \<times> json) list"

text \<open>\<open>Request cmd\<close>: one call of \<^verbatim>\<open>subprocess.run(cmd, ...)\<close>; \<open>Sleep ms\<close>: one call of
  \<^verbatim>\<open>time.sleep\<close>, in milliseconds.\<close>

datatype event = Request "string list" | Print string | Sleep nat

text \<open>The collaborators the scripts do not define: the transport (it may answer differently
  each time, so it sees the trace so far), \<^verbatim>\<open>json.loads\<close>, and \<^verbatim>\<open>str()\<close> of a
  list or dict inside an f-string. The transport gives \<open>Inl\<close> when \<^verbatim>\<open>subprocess.run\<close>
  raises and \<open>Inr\<close> of the standard output otherwise, also when \<^verbatim>\<open>curl\<close> itself fails:
  the scripts pass no \<^verbatim>\<open>check=True\<close> and never read the return code, so a failed
  \<^verbatim>\<open>curl -s\<close> is an empty standard output.\<close>

type_synonym transport = "event list \<Rightarrow> string list \<Rightarrow> exn + string"
type_synonym parser = "string \<Rightarrow> exn + json"
type_synonym 'a py = "(exn + 'a) \<times> event list"

subsection \<open>Builtins\<close>

text \<open>\<^verbatim>\<open>needle in haystack\<close> on strings.\<close>

fun str_contains :: "string \<Rightarrow> string \<Rightarrow> bool" where
  "str_contains needle [] = (needle = [])"
| "str_contains needle (x # xs) = (prefix needle (x # xs) \<or> str_contains needle xs)"

definition digit_char :: "nat \<Rightarrow> char" where
  "digit_char d = ''0123456789'' ! d"

function str_nat :: "nat \<Rightarrow> string" where
  "str_nat n = (if n < 10 then [digit_char n] else str_nat (n div 10) @ [digit_char (n mod 10)])"
  by pat_completeness auto
termination
  by (relation "measure id") auto

declare str_nat.simps [simp del]

text \<open>\<^verbatim>\<open>str(i)\<close> of a Python int, as an f-string renders it.\<close>

definition str_int :: "int \<Rightarrow> string" where
  "str_int i = (if i < 0 then CHR ''-'' # str_nat (nat (- i)) else str_nat (nat i))"

text \<open>
  Decimal numerals, to say what \<open>str_int\<close> renders. \<open>nat_of_dec\<close> reads a non-empty string
  of digits and nothing else; \<open>int_of_dec\<close> allows one leading minus sign. A numeral is
  canonical when it has no leading zero (the numeral \<open>0\<close> itself apart) and is not \<open>-0\<close>.
\<close>

definition is_digit :: "char \<Rightarrow> bool" where
  "is_digit c = (c \<in> set ''0123456789'')"

definition digit_val :: "char \<Rightarrow> nat" where
  "digit_val c = of_char c - 48"

definition digits_val :: "string \<Rightarrow> nat" where
  "digits_val s = foldl (\<lambda>acc c. 10 * acc + digit_val c) 0 s"

definition nat_of_dec :: "string \<Rightarrow> nat option" where
  "nat_of_dec s = (if s \<noteq> [] \<and> list_all is_digit s then Some (digits_val s) else None)"

definition int_of_dec :: "string \<Rightarrow> int option" where
  "int_of_dec s =
     (case s of
        [] \<Rightarrow> None
      | c # cs \<Rightarrow>
          if c = CHR ''-'' then map_option (\<lambda>n. - int n) (nat_of_dec cs)
          else map_option int (nat_of_dec s))"

definition canonical_decimal :: "string \<Rightarrow> bool" where
  "canonical_decimal s =
     (case s of
        [] \<Rightarrow> False
      | c # cs \<Rightarrow>
          if c = CHR ''-'' then cs \<noteq> [] \<and> list_all is_digit cs \<and> hd cs \<noteq> CHR ''0''
          else list_all is_digit s \<and> (if c = CHR ''0'' then cs = [] else True))"

text \<open>\<^verbatim>\<open>range(start, stop, step)\<close> for a positive step; \<^verbatim>\<open>range(1, 100)\<close> is
  \<open>range_up 1 100 1\<close>.\<close>

function range_up :: "int \<Rightarrow> int \<Rightarrow> int \<Rightarrow> int list" where
  "range_up start stop step =
     (if 0 < step \<and> start < stop then start # range_up (start + step) stop step else [])"
  by pat_completeness auto
termination
  by (relation "measure (\<lambda>(start, stop, step). nat (stop - start))") auto

declare range_up.simps [simp del]

definition sq :: "string \<Rightarrow> string" where
  "sq s = [char_of (39::nat)] @ s @ [char_of (39::nat)]"

fun type_name :: "json \<Rightarrow> string" where
  "type_name JNull = ''NoneType''"
| "type_name (JBool _) = ''bool''"
| "type_name (JInt _) = ''int''"
| "type_name (JFloat _ _) = ''float''"
| "type_name (JStr _) = ''str''"
| "type_name (JArr _) = ''list''"
| "type_name (JObj _) = ''dict''"

text \<open>\<^verbatim>\<open>data.get(key, default)\<close>: only a dict has \<^verbatim>\<open>get\<close>.\<close>

fun dict_get :: "json \<Rightarrow> string \<Rightarrow> json \<Rightarrow> exn + json" where
  "dict_get (JObj kvs) key dflt = (case map_of kvs key of Some v \<Rightarrow> Inr v | None \<Rightarrow> Inr dflt)"
| "dict_get j key dflt =
     Inl (Exn ''AttributeError'' (sq (type_name j) @ '' object has no attribute '' @ sq ''get''))"

text \<open>\<^verbatim>\<open>if contracts:\<close>\<close>

fun truthy :: "json \<Rightarrow> bool" where
  "truthy JNull = False"
| "truthy (JBool b) = b"
| "truthy (JInt i) = (i \<noteq> 0)"
| "truthy (JFloat nz _) = nz"
| "truthy (JStr s) = (s \<noteq> [])"
| "truthy (JArr xs) = (xs \<noteq> [])"
| "truthy (JObj kvs) = (kvs \<noteq> [])"

text \<open>\<^verbatim>\<open>contracts[0]\<close>. The keys of a parsed JSON object are strings, so the key \<open>0\<close> is
  never there.\<close>

fun subscript0 :: "json \<Rightarrow> exn + json" where
  "subscript0 (JArr []) = Inl (Exn ''IndexError'' ''list index out of range'')"
| "subscript0 (JArr (x # xs)) = Inr x"
| "subscript0 (JStr []) = Inl (Exn ''IndexError'' ''string index out of range'')"
| "subscript0 (JStr (c # cs)) = Inr (JStr [c])"
| "subscript0 (JObj kvs) = Inl (Exn ''KeyError'' ''0'')"
| "subscript0 j = Inl (Exn ''TypeError'' (sq (type_name j) @ '' object is not subscriptable''))"

text \<open>\<^verbatim>\<open>{addr}\<close> inside an f-string.\<close>

fun py_format :: "(json \<Rightarrow> string) \<Rightarrow> json \<Rightarrow> string" where
  "py_format fmt (JStr s) = s"
| "py_format fmt (JInt i) = str_int i"
| "py_format fmt (JBool b) = (if b then ''True'' else ''False'')"
| "py_format fmt JNull = ''None''"
| "py_format fmt (JFloat nz r) = r"
| "py_format fmt j = fmt j"

text \<open>\<^verbatim>\<open>subprocess.run(cmd, capture_output=True, text=True)\<close>, of which the scripts read
  \<^verbatim>\<open>result.stdout\<close> only.\<close>

definition subprocess_run :: "transport \<Rightarrow> string list \<Rightarrow> event list \<Rightarrow> string py" where
  "subprocess_run run cmd tr = (run tr cmd, tr @ [Request cmd])"

section \<open>The requests\<close>

definition smart_url :: "string \<Rightarrow> string" where
  "smart_url addr =
     ''https://rest.stargaze-apis.com/cosmwasm/wasm/v1/contract/'' @ addr
       @ ''/smart/eyJjb25maWciOnt9fQ==''"

definition smart_cmd :: "string \<Rightarrow> string list" where
  "smart_cmd addr =
     [''curl'', ''-s'', ''-X'', ''GET'', smart_url addr, ''-H'', ''accept: application/json'']"

definition contracts_url :: "int \<Rightarrow> string" where
  "contracts_url code_id =
     ''https://rest.stargaze-apis.com/cosmwasm/wasm/v1/code/'' @ str_int code_id
       @ ''/contracts?pagination.limit=1''"

definition contracts_cmd :: "int \<Rightarrow> string list" where
  "contracts_cmd code_id =
     [''curl'', ''-s'', ''-X'', ''GET'', contracts_url code_id, ''-H'', ''accept: application/json'']"

section \<open>find\_addr.py\<close>

definition charset :: string where
  "charset = ''qpzry9x8gf2tvdw0s3jn54khce6mua7l''"

text \<open>The two-element list \<^verbatim>\<open>base_addr_parts\<close>, read at \<^verbatim>\<open>[0]\<close> and \<^verbatim>\<open>[1]\<close>.\<close>

definition base_addr_parts :: "string \<times> string" where
  "base_addr_parts =
     (''stars1fvhcnyddukcqf87l2u9z6f'', ''xm8e9gnv7qusmdnhaq363wwr5dapq2y05v9'')"

definition make_addr :: "string \<times> string \<Rightarrow> char \<Rightarrow> string" where
  "make_addr parts c = fst parts @ [c] @ snd parts"

text \<open>The sequence of addresses the loop \<^verbatim>\<open>for c in charset\<close> goes through.\<close>

definition candidates :: "string \<times> string \<Rightarrow> string \<Rightarrow> string list" where
  "candidates parts cs = map (make_addr parts) cs"

definition found_report :: "string \<Rightarrow> string \<Rightarrow> event list" where
  "found_report addr out = [Print (''FOUND MATCH: '' @ addr), Print (''Response: '' @ out)]"

text \<open>The \<^verbatim>\<open>try\<close> block of \<^verbatim>\<open>check_address\<close>: \<open>Some True\<close> when it executes
  \<^verbatim>\<open>return True\<close>, \<open>None\<close> when it falls through.\<close>

definition check_address_try ::
    "transport \<Rightarrow> string \<times> string \<Rightarrow> char \<Rightarrow> event list \<Rightarrow> bool option py" where
  "check_address_try run parts c tr =
     (let addr = make_addr parts c in
      case subprocess_run run (smart_cmd addr) tr of
        (Inl e, tr1) \<Rightarrow> (Inl e, tr1)
      | (Inr out, tr1) \<Rightarrow>
          if \<not> str_contains ''decoding bech32 failed'' out
          then (Inr (Some True), tr1 @ found_report addr out)
          else (Inr None, tr1))"

text \<open>\<^verbatim>\<open>except Exception as e: pass\<close>, then \<^verbatim>\<open>return False\<close>.\<close>

definition check_address ::
    "transport \<Rightarrow> string \<times> string \<Rightarrow> char \<Rightarrow> event list \<Rightarrow> bool py" where
  "check_address run parts c tr =
     (case check_address_try run parts c tr of
        (Inl e, tr1) \<Rightarrow> (Inr False, tr1)
      | (Inr (Some b), tr1) \<Rightarrow> (Inr b, tr1)
      | (Inr None, tr1) \<Rightarrow> (Inr False, tr1))"

text \<open>\<^verbatim>\<open>for c in charset: if check_address(c): break\<close>. The result tells how the loop
  ended: \<open>True\<close> by \<^verbatim>\<open>break\<close>, \<open>False\<close> at the end of the charset.\<close>

fun addr_loop ::
    "transport \<Rightarrow> string \<times> string \<Rightarrow> string \<Rightarrow> event list \<Rightarrow> bool py" where
  "addr_loop run parts [] tr = (Inr False, tr)"
| "addr_loop run parts (c # cs) tr =
     (case check_address run parts c tr of
        (Inl e, tr1) \<Rightarrow> (Inl e, tr1)
      | (Inr True, tr1) \<Rightarrow> (Inr True, tr1)
      | (Inr False, tr1) \<Rightarrow> addr_loop run parts cs tr1)"

definition find_addr :: "transport \<Rightarrow> bool py" where
  "find_addr run = addr_loop run base_addr_parts charset [Print ''Brute forcing address...'']"

section \<open>find\_marketplace.py\<close>

definition check_contract_try ::
    "transport \<Rightarrow> (json \<Rightarrow> string) \<Rightarrow> json \<Rightarrow> event list \<Rightarrow> unit py" where
  "check_contract_try run fmt addr tr =
     (case subprocess_run run (smart_cmd (py_format fmt addr)) tr of
        (Inl e, tr1) \<Rightarrow> (Inl e, tr1)
      | (Inr out, tr1) \<Rightarrow>
          if str_contains ''data'' out
          then (Inr (), tr1 @ [Print (''Contract '' @ py_format fmt addr @ '' Config: ''
                                       @ take 200 out)])
          else (Inr (), tr1))"

text \<open>\<^verbatim>\<open>except: pass\<close>\<close>

definition check_contract ::
    "transport \<Rightarrow> (json \<Rightarrow> string) \<Rightarrow> json \<Rightarrow> event list \<Rightarrow> unit py" where
  "check_contract run fmt addr tr =
     (case check_contract_try run fmt addr tr of
        (Inl e, tr1) \<Rightarrow> (Inr (), tr1)
      | (Inr u, tr1) \<Rightarrow> (Inr u, tr1))"

definition scan_code_id_try ::
    "transport \<Rightarrow> parser \<Rightarrow> (json \<Rightarrow> string) \<Rightarrow> int \<Rightarrow> event list \<Rightarrow> unit py" where
  "scan_code_id_try run loads fmt code_id tr =
     (case subprocess_run run (contracts_cmd code_id) tr of
        (Inl e, tr1) \<Rightarrow> (Inl e, tr1)
      | (Inr out, tr1) \<Rightarrow>
         (case loads out of
            Inl e \<Rightarrow> (Inl e, tr1)
          | Inr data \<Rightarrow>
             (case dict_get data ''contracts'' (JArr []) of
                Inl e \<Rightarrow> (Inl e, tr1)
              | Inr contracts \<Rightarrow>
                 if truthy contracts then
                   (case subscript0 contracts of
                      Inl e \<Rightarrow> (Inl e, tr1)
                    | Inr addr \<Rightarrow>
                        check_contract run fmt addr
                          (tr1 @ [Print (''Code '' @ str_int code_id @ '' has contract: ''
                                          @ py_format fmt addr)]))
                 else (Inr (), tr1))))"

definition scan_code_id ::
    "transport \<Rightarrow> parser \<Rightarrow> (json \<Rightarrow> string) \<Rightarrow> int \<Rightarrow> event list \<Rightarrow> unit py" where
  "scan_code_id run loads fmt code_id tr =
     (case scan_code_id_try run loads fmt code_id
             (tr @ [Print (''Scanning Code ID '' @ str_int code_id @ ''...'')]) of
        (Inl e, tr1) \<Rightarrow>
          (Inr (), tr1 @ [Print (''Error scanning '' @ str_int code_id @ '': '' @ exn_msg e)])
      | (Inr u, tr1) \<Rightarrow> (Inr u, tr1))"

text \<open>\<^verbatim>\<open>for i in ...: scan_code_id(i); time.sleep(0.5)\<close>\<close>

fun scan_loop ::
    "transport \<Rightarrow> parser \<Rightarrow> (json \<Rightarrow> string) \<Rightarrow> int list \<Rightarrow> event list \<Rightarrow> unit py" where
  "scan_loop run loads fmt [] tr = (Inr (), tr)"
| "scan_loop run loads fmt (i # ids) tr =
     (case scan_code_id run loads fmt i tr of
        (Inl e, tr1) \<Rightarrow> (Inl e, tr1)
      | (Inr u, tr1) \<Rightarrow> scan_loop run loads fmt ids (tr1 @ [Sleep 500]))"

definition find_marketplace :: "transport \<Rightarrow> parser \<Rightarrow> (json \<Rightarrow> string) \<Rightarrow> unit py" where
  "find_marketplace run loads fmt = scan_loop run loads fmt (range_up 1 100 1) []"

section \<open>Observations on traces and test environments\<close>

primrec requests_of :: "event list \<Rightarrow> string list list" where
  "requests_of [] = []"
| "requests_of (ev # tr) = (case ev of Request cmd \<Rightarrow> cmd # requests_of tr | _ \<Rightarrow> requests_of tr)"

primrec sleeps_of :: "event list \<Rightarrow> nat list" where
  "sleeps_of [] = []"
| "sleeps_of (ev # tr) = (case ev of Sleep ms \<Rightarrow> ms # sleeps_of tr | _ \<Rightarrow> sleeps_of tr)"

text \<open>The requests of \<^verbatim>\<open>check_address\<close> for the symbols \<open>cs\<close>, one each, in order.\<close>

definition asked :: "string \<times> string \<Rightarrow> string \<Rightarrow> event list" where
  "asked parts cs = map (\<lambda>c. Request (smart_cmd (make_addr parts c))) cs"

text \<open>A transport that answers every request with the same standard output, and one on
  which every \<^verbatim>\<open>subprocess.run\<close> raises.\<close>

definition run_const :: "string \<Rightarrow> transport" where
  "run_const out = (\<lambda>tr cmd. Inr out)"

definition run_down :: transport where
  "run_down = (\<lambda>tr cmd. Inl (Exn ''FileNotFoundError'' ''No such file or directory''))"

text \<open>The contracts-list requests (\<^verbatim>\<open>.../code/{code_id}/contracts...\<close>) among the events.\<close>

definition is_code_request :: "event \<Rightarrow> bool" where
  "is_code_request ev =
     (case ev of
        Request [c0, c1, c2, c3, url, c5, c6] \<Rightarrow>
          prefix ''https://rest.stargaze-apis.com/cosmwasm/wasm/v1/code/'' url
      | _ \<Rightarrow> False)"

text \<open>
  Pacing of a trace: \<open>burst_ok k d n tr\<close> holds when no more than \<open>k\<close> requests are issued
  without a sleep of at least \<open>d\<close> milliseconds in between, \<open>n\<close> requests being already
  issued since the last such sleep. A delay of \<open>d\<close> between every two consecutive requests
  is \<open>burst_ok 1 d 0\<close>. \<open>pending d n tr\<close> counts the requests since the last such sleep.
\<close>

fun burst_ok :: "nat \<Rightarrow> nat \<Rightarrow> nat \<Rightarrow> event list \<Rightarrow> bool" where
  "burst_ok k d n [] = True"
| "burst_ok k d n (Request cmd # tr) = (n < k \<and> burst_ok k d (Suc n) tr)"
| "burst_ok k d n (Sleep ms # tr) = burst_ok k d (if d \<le> ms then 0 else n) tr"
| "burst_ok k d n (Print s # tr) = burst_ok k d n tr"

fun pending :: "nat \<Rightarrow> nat \<Rightarrow> event list \<Rightarrow> nat" where
  "pending d n [] = n"
| "pending d n (Request cmd # tr) = pending d (Suc n) tr"
| "pending d n (Sleep ms # tr) = pending d (if d \<le> ms then 0 else n) tr"
| "pending d n (Print s # tr) = pending d n tr"

subsection \<open>The specification's classification rule and search driver\<close>

datatype outcome = Match string | NoMatch | Invalid | TransportError

datatype terminal = Found string string | Exhausted | Aborted

text \<open>
  The three-step rule in the specification's words, for comparison with the scripts:
  the failure marker gives \<open>Invalid\<close>; otherwise a body that parses as a mapping with a
  top-level key \<^verbatim>\<open>data\<close> gives \<open>Match\<close> with the body; otherwise \<open>NoMatch\<close>.
  \<open>parsed\<close> is what parsing the body as JSON gives.
\<close>

definition classify_spec :: "string \<Rightarrow> exn + json \<Rightarrow> outcome" where
  "classify_spec body parsed =
     (if str_contains ''decoding bech32 failed'' body then Invalid
      else case parsed of
             Inr (JObj kvs) \<Rightarrow> (if map_of kvs ''data'' \<noteq> None then Match body else NoMatch)
           | _ \<Rightarrow> NoMatch)"

text \<open>
  The search driver in the specification's words, for comparison with the scripts: it takes
  the candidates with the outcome of each, and gives the terminal state and the number of
  candidates classified. \<open>fails\<close> counts the consecutive transport errors.
\<close>

fun driver_spec :: "nat \<Rightarrow> nat \<Rightarrow> (string \<times> outcome) list \<Rightarrow> terminal \<times> nat" where
  "driver_spec threshold fails [] = (Exhausted, 0)"
| "driver_spec threshold fails ((c, Match payload) # rest) = (Found c payload, 1)"
| "driver_spec threshold fails ((c, TransportError) # rest) =
     (if threshold < Suc fails then (Aborted, 1)
      else case driver_spec threshold (Suc fails) rest of (t, n) \<Rightarrow> (t, Suc n))"
| "driver_spec threshold fails ((c, oc) # rest) =
     (case driver_spec threshold 0 rest of (t, n) \<Rightarrow> (t, Suc n))"

subsection \<open>A small chain: code 1 has one contract, which answers the config query\<close>

definition demo_listing :: string where
  \<open>demo_listing = ''{"contracts":["stars1abc"],"pagination":{"next_key":null,"total":"0"}}''\<close>

definition demo_no_contracts :: string where
  \<open>demo_no_contracts = ''{"contracts":[],"pagination":{"next_key":null,"total":"0"}}''\<close>

definition demo_config :: string where
  \<open>demo_config = ''{"data":{}}''\<close>

definition run_demo :: transport where
  "run_demo = (\<lambda>tr cmd.
     if cmd = contracts_cmd 1 then Inr demo_listing
     else if cmd = smart_cmd ''stars1abc'' then Inr demo_config
     else Inr demo_no_contracts)"

text \<open>What \<^verbatim>\<open>json.loads\<close> gives on the three bodies of this chain.\<close>

definition loads_demo :: parser where
  "loads_demo s =
     (if s = demo_listing then
        Inr (JObj [(''contracts'', JArr [JStr ''stars1abc'']),
                   (''pagination'', JObj [(''next_key'', JNull), (''total'', JStr ''0'')])])
      else if s = demo_no_contracts then
        Inr (JObj [(''contracts'', JArr []),
                   (''pagination'', JObj [(''next_key'', JNull), (''total'', JStr ''0'')])])
      else if s = demo_config then Inr (JObj [(''data'', JObj [])])
      else Inl (Exn ''JSONDecodeError'' ''Expecting value: line 1 column 1 (char 0)''))"

text \<open>\<^verbatim>\<open>str()\<close> of a list or dict is not needed on this chain.\<close>

definition fmt_demo :: "json \<Rightarrow> string" where
  "fmt_demo j = ''[...]''"

text \<open>An error body that mentions \<^verbatim>\<open>data\<close> without having that key.\<close>

definition demo_error :: string where
  \<open>demo_error = ''{"code":2,"message":"invalid data","details":[]}''\<close>

text \<open>A transport on which only the address \<^verbatim>\<open>xby\<close> resolves.\<close>

definition run_second :: transport where
  "run_second = (\<lambda>tr cmd. if cmd = smart_cmd ''xby'' then Inr demo_config
                           else Inr ''decoding bech32 failed: invalid checksum'')"

text \<open>\<^verbatim>\<open>json.loads\<close> on bodies that are not JSON.\<close>

definition loads_fail :: parser where
  "loads_fail s = Inl (Exn ''JSONDecodeError'' ''Expecting value: line 1 column 1 (char 0)'')"

text \<open>A listing of two contracts and what \<^verbatim>\<open>json.loads\<close> gives on it.\<close>

definition demo_two_contracts :: string where
  \<open>demo_two_contracts = ''{"contracts":["stars1abc","stars1xyz"]}''\<close>

definition loads_two :: parser where
  "loads_two s =
     (if s = demo_two_contracts
      then Inr (JObj [(''contracts'', JArr [JStr ''stars1abc'', JStr ''stars1xyz''])])
      else Inl (Exn ''JSONDecodeError'' ''Expecting value: line 1 column 1 (char 0)''))"



section \<open>Strings\<close>

lemma str_contains_iff: "str_contains needle s \<longleftrightarrow> (\<exists>p q. s = p @ needle @ q)"
proof (induction s)
  case Nil
  then show ?case by auto
next
  case (Cons x xs)
  show ?case
  proof
    assume "str_contains needle (x # xs)"
    then consider "prefix needle (x # xs)" | "str_contains needle xs" by auto
    then show "\<exists>p q. x # xs = p @ needle @ q"
    proof cases
      case 1
      then obtain q where "x # xs = needle @ q" by (auto simp: prefix_def)
      then have "x # xs = [] @ needle @ q" by simp
      then show ?thesis by blast
    next
      case 2
      with Cons.IH obtain p q where "xs = p @ needle @ q" by blast
      then have "x # xs = (x # p) @ needle @ q" by simp
      then show ?thesis by blast
    qed
  next
    assume "\<exists>p q. x # xs = p @ needle @ q"
    then obtain p q where pq: "x # xs = p @ needle @ q" by blast
    show "str_contains needle (x # xs)"
    proof (cases p)
      case Nil
      with pq have "prefix needle (x # xs)" by (simp add: prefix_def)
      then show ?thesis by simp
    next
      case (Cons y ys)
      with pq have "xs = ys @ needle @ q" by simp
      with Cons.IH have "str_contains needle xs" by blast
      then show ?thesis by simp
    qed
  qed
qed

section \<open>check\_address\<close>

lemma check_address_raise:
  "run tr (smart_cmd (make_addr parts c)) = Inl e \<Longrightarrow>
   check_address run parts c tr = (Inr False, tr @ [Request (smart_cmd (make_addr parts c))])"
  by (simp add: check_address_def check_address_try_def subprocess_run_def Let_def)

lemma check_address_invalid:
  "run tr (smart_cmd (make_addr parts c)) = Inr out \<Longrightarrow>
   str_contains ''decoding bech32 failed'' out \<Longrightarrow>
   check_address run parts c tr = (Inr False, tr @ [Request (smart_cmd (make_addr parts c))])"
  by (simp add: check_address_def check_address_try_def subprocess_run_def Let_def)

lemma check_address_match:
  "run tr (smart_cmd (make_addr parts c)) = Inr out \<Longrightarrow>
   \<not> str_contains ''decoding bech32 failed'' out \<Longrightarrow>
   check_address run parts c tr =
     (Inr True, tr @ Request (smart_cmd (make_addr parts c)) # found_report (make_addr parts c) out)"
  by (simp add: check_address_def check_address_try_def subprocess_run_def Let_def)

text \<open>
  Claim C9. In address mode every standard output that does not contain
  \<^verbatim>\<open>decoding bech32 failed\<close>, the empty output included, makes \<^verbatim>\<open>check_address\<close> print
  the match and return \<open>True\<close>, and the loop stops there: nothing is requested for the
  symbols after it. The output is not parsed and no key is looked for: the verdict is
  fixed by the substring test alone.
\<close>

theorem address_mode_no_marker_is_match:
  assumes "run tr (smart_cmd (make_addr parts c)) = Inr out"
      and "\<not> str_contains ''decoding bech32 failed'' out"
  shows "check_address run parts c tr =
           (Inr True, tr @ [Request (smart_cmd (make_addr parts c)),
                            Print (''FOUND MATCH: '' @ make_addr parts c),
                            Print (''Response: '' @ out)])
       \<and> addr_loop run parts (c # cs) tr = check_address run parts c tr
       \<and> \<not> str_contains ''decoding bech32 failed'' ''''"
  using assms
  by (simp add: check_address_def check_address_try_def subprocess_run_def found_report_def
        Let_def)

theorem address_mode_no_marker_is_match_witness:
  "find_addr (run_const '''') =
     (Inr True,
      [Print ''Brute forcing address...'',
       Request (smart_cmd ''stars1fvhcnyddukcqf87l2u9z6fqxm8e9gnv7qusmdnhaq363wwr5dapq2y05v9''),
       Print ''FOUND MATCH: stars1fvhcnyddukcqf87l2u9z6fqxm8e9gnv7qusmdnhaq363wwr5dapq2y05v9'',
       Print ''Response: ''])"
  using address_mode_no_marker_is_match
          [of "run_const ''''" "[Print ''Brute forcing address...'']" base_addr_parts "CHR ''q''"
              "''''" "''pzry9x8gf2tvdw0s3jn54khce6mua7l''"]
  by (simp add: find_addr_def charset_def run_const_def make_addr_def base_addr_parts_def)

lemma check_address_cases:
  "check_address run parts c tr = (Inr False, tr @ [Request (smart_cmd (make_addr parts c))])
   \<or> (\<exists>out. run tr (smart_cmd (make_addr parts c)) = Inr out
          \<and> \<not> str_contains ''decoding bech32 failed'' out
          \<and> check_address run parts c tr =
               (Inr True, tr @ Request (smart_cmd (make_addr parts c))
                               # found_report (make_addr parts c) out))"
proof (cases "run tr (smart_cmd (make_addr parts c))")
  case (Inl e)
  then show ?thesis by (simp add: check_address_raise)
next
  case (Inr out)
  then show ?thesis
    by (cases "str_contains ''decoding bech32 failed'' out")
       (simp_all add: check_address_invalid check_address_match)
qed

lemma check_address_False:
  assumes "fst (check_address run parts c tr) = Inr False"
  shows "check_address run parts c tr = (Inr False, tr @ [Request (smart_cmd (make_addr parts c))])"
  using assms check_address_cases [of run parts c tr] by auto

lemma asked_Cons: "asked parts (c # cs) = Request (smart_cmd (make_addr parts c)) # asked parts cs"
  by (simp add: asked_def)

lemma asked_append: "asked parts (xs @ ys) = asked parts xs @ asked parts ys"
  by (simp add: asked_def)

lemma addr_loop_all_false:
  "(\<And>k. k < length cs \<Longrightarrow>
        fst (check_address run parts (cs ! k) (tr @ asked parts (take k cs))) = Inr False) \<Longrightarrow>
   addr_loop run parts cs tr = (Inr False, tr @ asked parts cs)"
proof (induction cs arbitrary: tr)
  case Nil
  then show ?case by (simp add: asked_def)
next
  case (Cons c cs)
  from Cons.prems [of 0]
  have "fst (check_address run parts c tr) = Inr False" by (simp add: asked_def)
  then have step: "check_address run parts c tr
                   = (Inr False, tr @ [Request (smart_cmd (make_addr parts c))])"
    by (rule check_address_False)
  have "addr_loop run parts cs (tr @ [Request (smart_cmd (make_addr parts c))])
        = (Inr False, (tr @ [Request (smart_cmd (make_addr parts c))]) @ asked parts cs)"
  proof (rule Cons.IH)
    fix k assume "k < length cs"
    with Cons.prems [of "Suc k"]
    show "fst (check_address run parts (cs ! k)
                 ((tr @ [Request (smart_cmd (make_addr parts c))]) @ asked parts (take k cs)))
          = Inr False"
      by (simp add: asked_Cons)
  qed
  with step show ?case by (simp add: asked_Cons)
qed

lemma addr_loop_append_false:
  "(\<And>k. k < length pre \<Longrightarrow>
        fst (check_address run parts (pre ! k) (tr @ asked parts (take k pre))) = Inr False) \<Longrightarrow>
   addr_loop run parts (pre @ rest) tr = addr_loop run parts rest (tr @ asked parts pre)"
proof (induction pre arbitrary: tr)
  case Nil
  then show ?case by (simp add: asked_def)
next
  case (Cons c cs)
  from Cons.prems [of 0]
  have "fst (check_address run parts c tr) = Inr False" by (simp add: asked_def)
  then have step: "check_address run parts c tr
                   = (Inr False, tr @ [Request (smart_cmd (make_addr parts c))])"
    by (rule check_address_False)
  have "addr_loop run parts (cs @ rest) (tr @ [Request (smart_cmd (make_addr parts c))])
        = addr_loop run parts rest ((tr @ [Request (smart_cmd (make_addr parts c))]) @ asked parts cs)"
  proof (rule Cons.IH)
    fix k assume "k < length cs"
    with Cons.prems [of "Suc k"]
    show "fst (check_address run parts (cs ! k)
                 ((tr @ [Request (smart_cmd (make_addr parts c))]) @ asked parts (take k cs)))
          = Inr False"
      by (simp add: asked_Cons)
  qed
  with step show ?case by (simp add: asked_Cons)
qed


lemma requests_of_append: "requests_of (xs @ ys) = requests_of xs @ requests_of ys"
  by (induction xs) (auto split: event.splits)

lemma sleeps_of_append: "sleeps_of (xs @ ys) = sleeps_of xs @ sleeps_of ys"
  by (induction xs) (auto split: event.splits)

text \<open>How the loop ended tells what it asked for.\<close>

lemma addr_loop_ended:
  "(fst (addr_loop run parts cs tr) = Inr False \<longrightarrow>
      snd (addr_loop run parts cs tr) = tr @ asked parts cs)
   \<and> (fst (addr_loop run parts cs tr) = Inr True \<longrightarrow>
      (\<exists>pre c post out. cs = pre @ c # post
         \<and> run (tr @ asked parts pre) (smart_cmd (make_addr parts c)) = Inr out
         \<and> \<not> str_contains ''decoding bech32 failed'' out
         \<and> snd (addr_loop run parts cs tr)
             = tr @ asked parts pre @ Request (smart_cmd (make_addr parts c))
                      # found_report (make_addr parts c) out))"
proof (induction cs arbitrary: tr)
  case Nil
  then show ?case by (simp add: asked_def)
next
  case (Cons c cs)
  from check_address_cases [of run parts c tr] show ?case
  proof
    assume a: "check_address run parts c tr
               = (Inr False, tr @ [Request (smart_cmd (make_addr parts c))])"
    let ?tr = "tr @ [Request (smart_cmd (make_addr parts c))]"
    from a have eq: "addr_loop run parts (c # cs) tr = addr_loop run parts cs ?tr" by simp
    note ih = Cons.IH [of ?tr]
    have "fst (addr_loop run parts cs ?tr) = Inr True \<longrightarrow>
      (\<exists>pre c' post out. c # cs = pre @ c' # post
         \<and> run (tr @ asked parts pre) (smart_cmd (make_addr parts c')) = Inr out
         \<and> \<not> str_contains ''decoding bech32 failed'' out
         \<and> snd (addr_loop run parts cs ?tr)
             = tr @ asked parts pre @ Request (smart_cmd (make_addr parts c'))
                      # found_report (make_addr parts c') out)"
    proof
      assume "fst (addr_loop run parts cs ?tr) = Inr True"
      with ih obtain pre c' post out where
        p: "cs = pre @ c' # post"
           "run (?tr @ asked parts pre) (smart_cmd (make_addr parts c')) = Inr out"
           "\<not> str_contains ''decoding bech32 failed'' out"
           "snd (addr_loop run parts cs ?tr)
             = ?tr @ asked parts pre @ Request (smart_cmd (make_addr parts c'))
                      # found_report (make_addr parts c') out"
        by blast
      then have "c # cs = (c # pre) @ c' # post
         \<and> run (tr @ asked parts (c # pre)) (smart_cmd (make_addr parts c')) = Inr out
         \<and> \<not> str_contains ''decoding bech32 failed'' out
         \<and> snd (addr_loop run parts cs ?tr)
             = tr @ asked parts (c # pre) @ Request (smart_cmd (make_addr parts c'))
                      # found_report (make_addr parts c') out"
        by (simp add: asked_Cons)
      then show "\<exists>pre c' post out. c # cs = pre @ c' # post
         \<and> run (tr @ asked parts pre) (smart_cmd (make_addr parts c')) = Inr out
         \<and> \<not> str_contains ''decoding bech32 failed'' out
         \<and> snd (addr_loop run parts cs ?tr)
             = tr @ asked parts pre @ Request (smart_cmd (make_addr parts c'))
                      # found_report (make_addr parts c') out"
        by blast
    qed
    with ih eq show ?thesis by (simp add: asked_Cons)
  next
    assume "\<exists>out. run tr (smart_cmd (make_addr parts c)) = Inr out
          \<and> \<not> str_contains ''decoding bech32 failed'' out
          \<and> check_address run parts c tr =
               (Inr True, tr @ Request (smart_cmd (make_addr parts c))
                               # found_report (make_addr parts c) out)"
    then obtain out where o: "run tr (smart_cmd (make_addr parts c)) = Inr out"
          "\<not> str_contains ''decoding bech32 failed'' out"
          "check_address run parts c tr =
               (Inr True, tr @ Request (smart_cmd (make_addr parts c))
                               # found_report (make_addr parts c) out)"
      by blast
    then have "c # cs = [] @ c # cs
         \<and> run (tr @ asked parts []) (smart_cmd (make_addr parts c)) = Inr out
         \<and> \<not> str_contains ''decoding bech32 failed'' out
         \<and> snd (addr_loop run parts (c # cs) tr)
             = tr @ asked parts [] @ Request (smart_cmd (make_addr parts c))
                      # found_report (make_addr parts c) out"
      by (simp add: asked_def)
    then have "\<exists>pre c' post out. c # cs = pre @ c' # post
         \<and> run (tr @ asked parts pre) (smart_cmd (make_addr parts c')) = Inr out
         \<and> \<not> str_contains ''decoding bech32 failed'' out
         \<and> snd (addr_loop run parts (c # cs) tr)
             = tr @ asked parts pre @ Request (smart_cmd (make_addr parts c'))
                      # found_report (make_addr parts c') out"
      by blast
    moreover from o have "fst (addr_loop run parts (c # cs) tr) = Inr True" by simp
    ultimately show ?thesis by simp
  qed
qed

section \<open>The candidate sequence\<close>

lemma requests_of_asked: "requests_of (asked parts cs) = map smart_cmd (candidates parts cs)"
  by (induction cs) (simp_all add: asked_def candidates_def)

lemma requests_of_found_report: "requests_of (found_report a out) = []"
  by (simp add: found_report_def)

lemma distinct_candidates:
  "distinct cs \<Longrightarrow> distinct (map smart_cmd (candidates parts cs))"
  by (simp add: candidates_def distinct_map inj_on_def make_addr_def smart_cmd_def smart_url_def)

text \<open>
  Claim C4. The character-completion source is the loop over the charset together with the
  address \<^verbatim>\<open>check_address\<close> builds. A loop that runs to the end of a charset \<open>cs\<close> has
  issued exactly one request per symbol, in the order of \<open>cs\<close>, for the prefix, that symbol
  and the suffix, and nothing else: as many as the symbols of \<open>cs\<close>, 32 for the fixed
  alphabet, and all distinct when the symbols are. A loop that ends at a match has issued
  the first \<open>n\<close> of them, for some \<open>n\<close> of at least 1.
\<close>

theorem candidates_enumeration:
  "(fst (addr_loop run parts cs tr) = Inr False \<longrightarrow>
      snd (addr_loop run parts cs tr)
        = tr @ map (\<lambda>a. Request (smart_cmd a)) (candidates parts cs))
   \<and> (fst (addr_loop run parts cs tr) = Inr True \<longrightarrow>
      (\<exists>n. 0 < n \<and> n \<le> length cs
         \<and> requests_of (snd (addr_loop run parts cs tr))
             = requests_of tr @ map smart_cmd (take n (candidates parts cs))))
   \<and> length (candidates parts cs) = length cs
   \<and> (\<forall>i<length cs. candidates parts cs ! i = fst parts @ [cs ! i] @ snd parts)
   \<and> (distinct cs \<longrightarrow> distinct (map smart_cmd (candidates parts cs)))
   \<and> (fst (find_addr run) = Inr False \<longrightarrow>
        requests_of (snd (find_addr run)) = map smart_cmd (candidates base_addr_parts charset)
        \<and> length (requests_of (snd (find_addr run))) = 32
        \<and> distinct (requests_of (snd (find_addr run))))"
proof -
  note e = addr_loop_ended [of run parts cs tr]
  have a: "asked parts cs = map (\<lambda>a. Request (smart_cmd a)) (candidates parts cs)" for parts cs
    by (simp add: asked_def candidates_def)
  from e have 1: "fst (addr_loop run parts cs tr) = Inr False \<longrightarrow>
      snd (addr_loop run parts cs tr)
        = tr @ map (\<lambda>a. Request (smart_cmd a)) (candidates parts cs)"
    by (simp add: a)
  have 2: "fst (addr_loop run parts cs tr) = Inr True \<longrightarrow>
      (\<exists>n. 0 < n \<and> n \<le> length cs
         \<and> requests_of (snd (addr_loop run parts cs tr))
             = requests_of tr @ map smart_cmd (take n (candidates parts cs)))"
  proof
    assume "fst (addr_loop run parts cs tr) = Inr True"
    with e obtain pre c post out where
      p: "cs = pre @ c # post"
         "snd (addr_loop run parts cs tr)
             = tr @ asked parts pre @ Request (smart_cmd (make_addr parts c))
                      # found_report (make_addr parts c) out"
      by blast
    then have "0 < Suc (length pre) \<and> Suc (length pre) \<le> length cs
         \<and> requests_of (snd (addr_loop run parts cs tr))
             = requests_of tr @ map smart_cmd (take (Suc (length pre)) (candidates parts cs))"
      by (simp add: requests_of_append requests_of_asked requests_of_found_report candidates_def)
    then show "\<exists>n. 0 < n \<and> n \<le> length cs
         \<and> requests_of (snd (addr_loop run parts cs tr))
             = requests_of tr @ map smart_cmd (take n (candidates parts cs))"
      by blast
  qed
  have 3: "length (candidates parts cs) = length cs"
    by (simp add: candidates_def)
  have 4: "\<forall>i<length cs. candidates parts cs ! i = fst parts @ [cs ! i] @ snd parts"
    by (simp add: candidates_def make_addr_def)
  have 5: "distinct cs \<longrightarrow> distinct (map smart_cmd (candidates parts cs))"
    by (simp add: distinct_candidates)
  have 6: "fst (find_addr run) = Inr False \<longrightarrow>
        requests_of (snd (find_addr run)) = map smart_cmd (candidates base_addr_parts charset)
        \<and> length (requests_of (snd (find_addr run))) = 32
        \<and> distinct (requests_of (snd (find_addr run)))"
  proof
    assume f: "fst (find_addr run) = Inr False"
    with addr_loop_ended [of run base_addr_parts charset "[Print ''Brute forcing address...'']"]
    have "snd (find_addr run)
          = [Print ''Brute forcing address...''] @ asked base_addr_parts charset"
      by (simp add: find_addr_def)
    then have r: "requests_of (snd (find_addr run))
                  = map smart_cmd (candidates base_addr_parts charset)"
      by (simp add: requests_of_asked)
    have "distinct charset" "length charset = 32" by (simp_all add: charset_def)
    with r distinct_candidates [of charset base_addr_parts]
    show "requests_of (snd (find_addr run)) = map smart_cmd (candidates base_addr_parts charset)
        \<and> length (requests_of (snd (find_addr run))) = 32
        \<and> distinct (requests_of (snd (find_addr run)))"
      by (simp add: candidates_def)
  qed
  from 1 2 3 4 5 6 show ?thesis by (intro conjI)
qed

theorem candidates_enumeration_witness:
  "addr_loop (run_const ''decoding bech32 failed'') (''x'', ''y'') ''ab'' []
     = (Inr False, [Request (smart_cmd ''xay''), Request (smart_cmd ''xby'')])
   \<and> requests_of (snd (addr_loop (run_const '''') (''x'', ''y'') ''ab'' [])) = [smart_cmd ''xay'']
   \<and> distinct ''ab'' \<and> distinct [smart_cmd ''xay'', smart_cmd ''xby'']
   \<and> fst (find_addr (run_const ''decoding bech32 failed'')) = Inr False
   \<and> length (requests_of (snd (find_addr (run_const ''decoding bech32 failed'')))) = 32
   \<and> distinct (requests_of (snd (find_addr (run_const ''decoding bech32 failed''))))"
proof -
  have l: "addr_loop (run_const ''decoding bech32 failed'') (''x'', ''y'') ''ab'' []
     = (Inr False, [Request (smart_cmd ''xay''), Request (smart_cmd ''xby'')])"
    by (simp add: check_address_def check_address_try_def subprocess_run_def run_const_def
          make_addr_def Let_def)
  have "addr_loop (run_const '''') (''x'', ''y'') ''ab'' []
     = (Inr True, Request (smart_cmd ''xay'') # found_report ''xay'' '''')"
    by (simp add: check_address_def check_address_try_def subprocess_run_def run_const_def
          make_addr_def Let_def)
  then have m: "requests_of (snd (addr_loop (run_const '''') (''x'', ''y'') ''ab'' []))
                = [smart_cmd ''xay'']"
    by (simp add: found_report_def)
  have "addr_loop (run_const ''decoding bech32 failed'') base_addr_parts charset
          [Print ''Brute forcing address...'']
        = (Inr False, [Print ''Brute forcing address...''] @ asked base_addr_parts charset)"
  proof (rule addr_loop_all_false)
    fix k
    show "fst (check_address (run_const ''decoding bech32 failed'') base_addr_parts (charset ! k)
                 ([Print ''Brute forcing address...''] @ asked base_addr_parts (take k charset)))
          = Inr False"
      by (simp add: check_address_def check_address_try_def subprocess_run_def run_const_def
            Let_def)
  qed
  then have f: "fst (find_addr (run_const ''decoding bech32 failed'')) = Inr False"
    by (simp only: find_addr_def fst_conv)
  note t = candidates_enumeration
             [of "run_const ''decoding bech32 failed''" "(''x'', ''y'')" "''ab''" "[]"]
  note t5 = t [THEN conjunct2, THEN conjunct2, THEN conjunct2, THEN conjunct2, THEN conjunct1]
  note t6 = t [THEN conjunct2, THEN conjunct2, THEN conjunct2, THEN conjunct2, THEN conjunct2]
  have da: "distinct ''ab''" by simp
  with t5 have "distinct (map smart_cmd (candidates (''x'', ''y'') ''ab''))" by (rule mp)
  then have d: "distinct [smart_cmd ''xay'', smart_cmd ''xby'']"
    by (simp only: candidates_def make_addr_def list.map fst_conv snd_conv append.simps)
  from t6 f have g: "requests_of (snd (find_addr (run_const ''decoding bech32 failed'')))
        = map smart_cmd (candidates base_addr_parts charset)
     \<and> length (requests_of (snd (find_addr (run_const ''decoding bech32 failed'')))) = 32
     \<and> distinct (requests_of (snd (find_addr (run_const ''decoding bech32 failed''))))"
    by (rule mp)
  from l m da d f g [THEN conjunct2, THEN conjunct1] g [THEN conjunct2, THEN conjunct2]
  show ?thesis by (intro conjI)
qed

section \<open>scan\_code\_id and its loop\<close>

lemma check_contract_eq:
  "check_contract run fmt a tr =
     (Inr (), tr @ Request (smart_cmd (py_format fmt a)) #
        (case run tr (smart_cmd (py_format fmt a)) of
           Inl e \<Rightarrow> []
         | Inr out \<Rightarrow>
             if str_contains ''data'' out
             then [Print (''Contract '' @ py_format fmt a @ '' Config: '' @ take 200 out)]
             else []))"
  by (simp add: check_contract_def check_contract_try_def subprocess_run_def split: sum.splits)

text \<open>What one call of \<^verbatim>\<open>scan_code_id\<close> adds to the trace: its banner, the contracts-list
  request, and then no sleep, at most one more request, and no other contracts-list request.\<close>

lemma scan_code_id_shape:
  "\<exists>rest. scan_code_id run loads fmt i tr =
            (Inr (), tr @ Print (''Scanning Code ID '' @ str_int i @ ''...'')
                        # Request (contracts_cmd i) # rest)
        \<and> sleeps_of rest = []
        \<and> length (requests_of rest) \<le> 1
        \<and> filter is_code_request rest = []"
  unfolding scan_code_id_def scan_code_id_try_def subprocess_run_def check_contract_eq
  by (auto split: sum.splits simp: is_code_request_def smart_cmd_def smart_url_def)

lemma scan_loop_returns: "fst (scan_loop run loads fmt ids tr) = Inr ()"
proof (induction ids arbitrary: tr)
  case Nil
  then show ?case by simp
next
  case (Cons i ids)
  from scan_code_id_shape [of run loads fmt i tr]
  obtain tr1 where "scan_code_id run loads fmt i tr = (Inr (), tr1)" by blast
  with Cons.IH [of "tr1 @ [Sleep 500]"] show ?case by simp
qed

lemma scan_loop_extends: "\<exists>ext. snd (scan_loop run loads fmt ids tr) = tr @ ext"
proof (induction ids arbitrary: tr)
  case Nil
  then show ?case by simp
next
  case (Cons i ids)
  from scan_code_id_shape [of run loads fmt i tr]
  obtain ev where s: "scan_code_id run loads fmt i tr = (Inr (), tr @ ev)" by blast
  from Cons.IH [of "(tr @ ev) @ [Sleep 500]"]
  obtain ext where "snd (scan_loop run loads fmt ids ((tr @ ev) @ [Sleep 500])) = ((tr @ ev) @ [Sleep 500]) @ ext"
    by blast
  with s have "snd (scan_loop run loads fmt (i # ids) tr) = tr @ (ev @ [Sleep 500] @ ext)" by simp
  then show ?case by blast
qed

lemma is_code_request_contracts_cmd: "is_code_request (Request (contracts_cmd i))"
  by (simp add: is_code_request_def contracts_cmd_def contracts_url_def)

lemma scan_loop_code_requests:
  "filter is_code_request (snd (scan_loop run loads fmt ids tr))
   = filter is_code_request tr @ map (\<lambda>i. Request (contracts_cmd i)) ids"
proof (induction ids arbitrary: tr)
  case Nil
  then show ?case by simp
next
  case (Cons i ids)
  from scan_code_id_shape [of run loads fmt i tr]
  obtain rest where s: "scan_code_id run loads fmt i tr =
            (Inr (), tr @ Print (''Scanning Code ID '' @ str_int i @ ''...'')
                        # Request (contracts_cmd i) # rest)"
    and r: "filter is_code_request rest = []" by blast
  have p: "\<not> is_code_request (Print s)" "\<not> is_code_request (Sleep n)" for s n
    by (simp_all add: is_code_request_def)
  from s Cons.IH [of "(tr @ Print (''Scanning Code ID '' @ str_int i @ ''...'')
                        # Request (contracts_cmd i) # rest) @ [Sleep 500]"] r
  show ?case by (simp add: p is_code_request_contracts_cmd)
qed

lemma scan_loop_sleeps:
  "sleeps_of (snd (scan_loop run loads fmt ids tr)) = sleeps_of tr @ replicate (length ids) 500"
proof (induction ids arbitrary: tr)
  case Nil
  then show ?case by simp
next
  case (Cons i ids)
  from scan_code_id_shape [of run loads fmt i tr]
  obtain rest where s: "scan_code_id run loads fmt i tr =
            (Inr (), tr @ Print (''Scanning Code ID '' @ str_int i @ ''...'')
                        # Request (contracts_cmd i) # rest)"
    and r: "sleeps_of rest = []" by blast
  from s Cons.IH [of "(tr @ Print (''Scanning Code ID '' @ str_int i @ ''...'')
                        # Request (contracts_cmd i) # rest) @ [Sleep 500]"] r
  show ?case by (simp add: sleeps_of_append replicate_append_same)
qed

subsection \<open>Pacing\<close>

lemma burst_ok_append:
  "burst_ok k d n (xs @ ys) = (burst_ok k d n xs \<and> burst_ok k d (pending d n xs) ys)"
  by (induction k d n xs rule: burst_ok.induct) auto

lemma pending_append: "pending d n (xs @ ys) = pending d (pending d n xs) ys"
  by (induction d n xs rule: pending.induct) auto

lemma pending_no_sleep: "sleeps_of xs = [] \<Longrightarrow> pending d n xs = n + length (requests_of xs)"
  by (induction d n xs rule: pending.induct) auto

lemma burst_ok_no_sleep:
  "sleeps_of xs = [] \<Longrightarrow> n \<le> k \<Longrightarrow> burst_ok k d n xs = (n + length (requests_of xs) \<le> k)"
  by (induction k d n xs rule: burst_ok.induct) auto

lemma scan_loop_burst:
  "burst_ok 2 500 n tr \<Longrightarrow> pending 500 n tr = 0 \<Longrightarrow>
   burst_ok 2 500 n (snd (scan_loop run loads fmt ids tr))
   \<and> pending 500 n (snd (scan_loop run loads fmt ids tr)) = 0"
proof (induction ids arbitrary: tr)
  case Nil
  then show ?case by simp
next
  case (Cons i ids)
  from scan_code_id_shape [of run loads fmt i tr]
  obtain rest where s: "scan_code_id run loads fmt i tr =
            (Inr (), tr @ Print (''Scanning Code ID '' @ str_int i @ ''...'')
                        # Request (contracts_cmd i) # rest)"
    and r: "sleeps_of rest = []" "length (requests_of rest) \<le> 1" by blast
  let ?tr1 = "(tr @ Print (''Scanning Code ID '' @ str_int i @ ''...'')
                        # Request (contracts_cmd i) # rest) @ [Sleep 500]"
  have "burst_ok 2 500 n ?tr1"
    using Cons.prems r by (simp add: burst_ok_append pending_append burst_ok_no_sleep)
  moreover have "pending 500 n ?tr1 = 0"
    using Cons.prems r by (simp add: pending_append)
  ultimately have "burst_ok 2 500 n (snd (scan_loop run loads fmt ids ?tr1))
   \<and> pending 500 n (snd (scan_loop run loads fmt ids ?tr1)) = 0"
    by (rule Cons.IH)
  with s show ?case by simp
qed

section \<open>The classification rule\<close>

text \<open>
  Claim C1, as stated, fails: on an empty standard output \<^verbatim>\<open>check_address\<close> reports a
  match, where the three-step rule gives \<open>NoMatch\<close> (the empty body parses as nothing); and
  \<^verbatim>\<open>check_contract\<close> prints the configuration for an error body that only mentions
  \<^verbatim>\<open>data\<close> in a message, where the rule gives \<open>NoMatch\<close> as well.
\<close>

theorem three_step_rule_counterexample:
  "fst (check_address (run_const '''') base_addr_parts (CHR ''q'') []) = Inr True
   \<and> classify_spec ''''
        (Inl (Exn ''JSONDecodeError'' ''Expecting value: line 1 column 1 (char 0)'')) = NoMatch
   \<and> snd (check_contract (run_const demo_error) fmt_demo (JStr ''stars1abc'') [])
       = [Request (smart_cmd ''stars1abc''), Print (''Contract stars1abc Config: '' @ demo_error)]
   \<and> classify_spec demo_error
        (Inr (JObj [(''code'', JInt 2), (''message'', JStr ''invalid data''), (''details'', JArr [])]))
       = NoMatch"
  by (simp add: check_address_def check_address_try_def subprocess_run_def run_const_def Let_def
        classify_spec_def check_contract_eq demo_error_def)

text \<open>
  Claim C1, amended. The scripts classify by substring, each mode with one test and without
  parsing the body. In address mode a standard output with \<^verbatim>\<open>decoding bech32 failed\<close> in
  it gives \<open>False\<close> and any other gives \<open>True\<close>, the address and the whole output being
  printed. In scan mode \<^verbatim>\<open>check_contract\<close> prints the contract and the first 200
  characters of the output when the output has \<^verbatim>\<open>data\<close> in it, and prints nothing
  otherwise.
\<close>

theorem verifier_substring_rule:
  "(run tr (smart_cmd (make_addr parts c)) = Inr out \<longrightarrow>
      check_address run parts c tr =
        (if str_contains ''decoding bech32 failed'' out
         then (Inr False, tr @ [Request (smart_cmd (make_addr parts c))])
         else (Inr True, tr @ [Request (smart_cmd (make_addr parts c)),
                               Print (''FOUND MATCH: '' @ make_addr parts c),
                               Print (''Response: '' @ out)])))
   \<and> (run tr (smart_cmd (py_format fmt a)) = Inr out \<longrightarrow>
      check_contract run fmt a tr =
        (Inr (), tr @ Request (smart_cmd (py_format fmt a)) #
                   (if str_contains ''data'' out
                    then [Print (''Contract '' @ py_format fmt a @ '' Config: '' @ take 200 out)]
                    else [])))"
  by (simp add: check_address_invalid check_address_match found_report_def check_contract_eq)

theorem verifier_substring_rule_witness:
  "check_address (run_const demo_config) (''x'', ''y'') (CHR ''a'') []
     = (Inr True, [Request (smart_cmd ''xay''), Print ''FOUND MATCH: xay'',
                   Print (''Response: '' @ demo_config)])
   \<and> check_contract (run_const demo_config) fmt_demo (JStr ''xay'') []
     = (Inr (), [Request (smart_cmd ''xay''), Print (''Contract xay Config: '' @ demo_config)])"
  using verifier_substring_rule [of "run_const demo_config" "[]" "(''x'', ''y'')" "CHR ''a''"
                                    demo_config fmt_demo "JStr ''xay''"]
  by (simp add: run_const_def make_addr_def demo_config_def)

section \<open>Stopping at the first match\<close>

lemma range_up_Cons: "0 < step \<Longrightarrow> start < stop \<Longrightarrow>
   range_up start stop step = start # range_up (start + step) stop step"
  by (subst range_up.simps) simp

lemma str_int_1: "str_int 1 = ''1''"
  by (simp add: str_int_def str_nat.simps digit_char_def)

lemma str_int_2: "str_int 2 = ''2''"
  by (simp add: str_int_def str_nat.simps digit_char_def)

lemma demo_first_two:
  "scan_loop run_demo loads_demo fmt_demo (1 # 2 # ids) [] =
   scan_loop run_demo loads_demo fmt_demo ids
     [Print ''Scanning Code ID 1...'', Request (contracts_cmd 1),
      Print ''Code 1 has contract: stars1abc'', Request (smart_cmd ''stars1abc''),
      Print (''Contract stars1abc Config: '' @ demo_config), Sleep 500,
      Print ''Scanning Code ID 2...'', Request (contracts_cmd 2), Sleep 500]"
  by (simp add: scan_code_id_def scan_code_id_try_def subprocess_run_def check_contract_eq
        run_demo_def loads_demo_def str_int_1 str_int_2 contracts_cmd_def contracts_url_def
        smart_cmd_def smart_url_def demo_listing_def demo_config_def demo_no_contracts_def)

text \<open>
  Claim C2, as stated for both scripts, fails for the scanner: its loop has no
  \<^verbatim>\<open>break\<close>. On the small chain the contract of code 1 answers the config query and is
  printed, and the run goes on to code 2.
\<close>

theorem first_match_stops_counterexample:
  "take 8 (snd (find_marketplace run_demo loads_demo fmt_demo)) =
     [Print ''Scanning Code ID 1...'', Request (contracts_cmd 1),
      Print ''Code 1 has contract: stars1abc'', Request (smart_cmd ''stars1abc''),
      Print (''Contract stars1abc Config: '' @ demo_config), Sleep 500,
      Print ''Scanning Code ID 2...'', Request (contracts_cmd 2)]"
proof -
  have "range_up 1 100 1 = 1 # 2 # range_up 3 100 1"
    by (simp add: range_up_Cons)
  then have "find_marketplace run_demo loads_demo fmt_demo =
     scan_loop run_demo loads_demo fmt_demo (range_up 3 100 1)
     [Print ''Scanning Code ID 1...'', Request (contracts_cmd 1),
      Print ''Code 1 has contract: stars1abc'', Request (smart_cmd ''stars1abc''),
      Print (''Contract stars1abc Config: '' @ demo_config), Sleep 500,
      Print ''Scanning Code ID 2...'', Request (contracts_cmd 2), Sleep 500]"
    by (simp only: find_marketplace_def demo_first_two)
  moreover from scan_loop_extends obtain ext where
    "snd (scan_loop run_demo loads_demo fmt_demo (range_up 3 100 1)
     [Print ''Scanning Code ID 1...'', Request (contracts_cmd 1),
      Print ''Code 1 has contract: stars1abc'', Request (smart_cmd ''stars1abc''),
      Print (''Contract stars1abc Config: '' @ demo_config), Sleep 500,
      Print ''Scanning Code ID 2...'', Request (contracts_cmd 2), Sleep 500])
     = [Print ''Scanning Code ID 1...'', Request (contracts_cmd 1),
      Print ''Code 1 has contract: stars1abc'', Request (smart_cmd ''stars1abc''),
      Print (''Contract stars1abc Config: '' @ demo_config), Sleep 500,
      Print ''Scanning Code ID 2...'', Request (contracts_cmd 2), Sleep 500] @ ext"
    by blast
  ultimately show ?thesis by simp
qed

text \<open>
  Claim C2, amended to the address search. If \<^verbatim>\<open>check_address\<close> returns \<open>False\<close> for
  the symbols \<open>pre\<close> and the answer for the next symbol \<open>c\<close> has no failure marker, the loop
  ends by \<^verbatim>\<open>break\<close> at \<open>c\<close>: it has asked for the addresses of \<open>pre\<close> and of \<open>c\<close>, one
  request each in this order, printed the address of \<open>c\<close> and the answer, and asked for no
  address of \<open>post\<close>.
\<close>

theorem address_mode_first_match_stops:
  assumes "\<forall>k<length pre.
             fst (check_address run parts (pre ! k) (tr @ asked parts (take k pre))) = Inr False"
      and "run (tr @ asked parts pre) (smart_cmd (make_addr parts c)) = Inr out"
      and "\<not> str_contains ''decoding bech32 failed'' out"
  shows "addr_loop run parts (pre @ c # post) tr =
           (Inr True, tr @ asked parts pre @
                      [Request (smart_cmd (make_addr parts c)),
                       Print (''FOUND MATCH: '' @ make_addr parts c),
                       Print (''Response: '' @ out)])"
proof -
  from assms(1)
  have "addr_loop run parts (pre @ c # post) tr = addr_loop run parts (c # post) (tr @ asked parts pre)"
    by (intro addr_loop_append_false) simp
  also from check_address_match [of run "tr @ asked parts pre" parts c out] assms(2,3)
  have "\<dots> = (Inr True, (tr @ asked parts pre) @ Request (smart_cmd (make_addr parts c))
                            # found_report (make_addr parts c) out)"
    by simp
  finally show ?thesis by (simp add: found_report_def)
qed

theorem address_mode_first_match_stops_witness:
  "addr_loop run_second (''x'', ''y'') ''abc'' []
     = (Inr True, [Request (smart_cmd ''xay''), Request (smart_cmd ''xby''),
                   Print ''FOUND MATCH: xby'', Print (''Response: '' @ demo_config)])"
  using address_mode_first_match_stops
          [of "''a''" run_second "(''x'', ''y'')" "[]" "CHR ''b''" demo_config "''c''"]
  by (simp add: run_second_def make_addr_def asked_def demo_config_def smart_cmd_def smart_url_def
        check_address_def check_address_try_def subprocess_run_def Let_def)

section \<open>Transport failures\<close>

lemma addr_loop_all_raise:
  assumes "\<forall>tr cmd. \<exists>e. run tr cmd = Inl e"
  shows "addr_loop run parts cs tr = (Inr False, tr @ asked parts cs)"
proof (rule addr_loop_all_false)
  fix k assume "k < length cs"
  from assms obtain e where
    "run (tr @ asked parts (take k cs)) (smart_cmd (make_addr parts (cs ! k))) = Inl e"
    by blast
  then show "fst (check_address run parts (cs ! k) (tr @ asked parts (take k cs))) = Inr False"
    by (simp add: check_address_raise)
qed

text \<open>
  Claim C3, as stated, fails: the scripts have no failure threshold and no aborted state.
  With \<^verbatim>\<open>curl\<close> failing on every call the address search asks for all 32 candidates
  and ends as a search without a match does, where the driver of the specification with
  threshold 3 aborts after 4.
\<close>

theorem transport_abort_counterexample:
  "fst (find_addr run_down) = Inr False
   \<and> length (requests_of (snd (find_addr run_down))) = 32
   \<and> driver_spec 3 0 (zip (candidates base_addr_parts charset) (replicate 32 TransportError))
       = (Aborted, 4)"
proof -
  have "find_addr run_down
        = (Inr False, [Print ''Brute forcing address...''] @ asked base_addr_parts charset)"
    unfolding find_addr_def by (rule addr_loop_all_raise) (simp add: run_down_def)
  moreover have "length charset = 32" by (simp add: charset_def)
  moreover have "driver_spec 3 0 (zip (candidates base_addr_parts charset)
                    (replicate 32 TransportError)) = (Aborted, 4)"
    by (simp add: candidates_def charset_def eval_nat_numeral)
  ultimately show ?thesis
    by (simp add: requests_of_append requests_of_asked candidates_def)
qed

lemma scan_code_id_raise:
  "run (tr @ [Print (''Scanning Code ID '' @ str_int i @ ''...'')]) (contracts_cmd i) = Inl e \<Longrightarrow>
   scan_code_id run loads fmt i tr =
     (Inr (), tr @ [Print (''Scanning Code ID '' @ str_int i @ ''...''), Request (contracts_cmd i),
                    Print (''Error scanning '' @ str_int i @ '': '' @ exn_msg e)])"
  by (simp add: scan_code_id_def scan_code_id_try_def subprocess_run_def)

lemma scan_code_id_unparseable:
  "run (tr @ [Print (''Scanning Code ID '' @ str_int i @ ''...'')]) (contracts_cmd i) = Inr out \<Longrightarrow>
   loads out = Inl e \<Longrightarrow>
   scan_code_id run loads fmt i tr =
     (Inr (), tr @ [Print (''Scanning Code ID '' @ str_int i @ ''...''), Request (contracts_cmd i),
                    Print (''Error scanning '' @ str_int i @ '': '' @ exn_msg e)])"
  by (simp add: scan_code_id_def scan_code_id_try_def subprocess_run_def)

lemma scan_loop_all_raise:
  assumes "\<forall>tr cmd. \<exists>e. run tr cmd = Inl e"
  shows "requests_of (snd (scan_loop run loads fmt ids tr)) = requests_of tr @ map contracts_cmd ids"
proof (induction ids arbitrary: tr)
  case Nil
  then show ?case by simp
next
  case (Cons i ids)
  from assms obtain e where
    "run (tr @ [Print (''Scanning Code ID '' @ str_int i @ ''...'')]) (contracts_cmd i) = Inl e"
    by blast
  from scan_code_id_raise [of run tr i e loads fmt] this
       Cons.IH [of "(tr @ [Print (''Scanning Code ID '' @ str_int i @ ''...''),
                           Request (contracts_cmd i),
                           Print (''Error scanning '' @ str_int i @ '': '' @ exn_msg e)])
                    @ [Sleep 500]"]
  show ?case by (simp add: requests_of_append)
qed

lemma scan_loop_unparseable:
  assumes "\<forall>tr cmd. run tr cmd = Inr out" and "loads out = Inl e"
  shows "scan_loop run loads fmt ids tr =
           (Inr (), tr @ concat (map (\<lambda>i.
              [Print (''Scanning Code ID '' @ str_int i @ ''...''),
               Request (contracts_cmd i),
               Print (''Error scanning '' @ str_int i @ '': '' @ exn_msg e),
               Sleep 500]) ids))"
proof (induction ids arbitrary: tr)
  case Nil
  then show ?case by simp
next
  case (Cons i ids)
  from assms have "scan_code_id run loads fmt i tr =
     (Inr (), tr @ [Print (''Scanning Code ID '' @ str_int i @ ''...''), Request (contracts_cmd i),
                    Print (''Error scanning '' @ str_int i @ '': '' @ exn_msg e)])"
    by (intro scan_code_id_unparseable) simp_all
  with Cons.IH show ?case by simp
qed

text \<open>
  Claim C3, amended. The scripts keep no count of failures and never abort. When every call
  of \<^verbatim>\<open>curl\<close> raises, however many in a row, the address search asks for every
  candidate once and ends as a search without a match does, and the scanner returns normally
  after one contracts-list request and one sleep of 500 ms for every code ID. When every
  call fails without raising and leaves an output \<open>out\<close> (the return code is never read; a
  failed \<^verbatim>\<open>curl -s\<close> leaves the empty output), the output is classified like any other:
  the address search, \<open>out\<close> having no failure marker, reports its first candidate as a match
  and ends there, and the scanner, \<^verbatim>\<open>json.loads\<close> failing on \<open>out\<close>, prints the error for
  every code ID and goes to the end.
\<close>

theorem transport_errors_are_passed_over:
  "((\<forall>tr cmd. \<exists>e. run tr cmd = Inl e) \<longrightarrow>
       addr_loop run parts cs tr = (Inr False, tr @ asked parts cs)
       \<and> fst (scan_loop run loads fmt ids tr) = Inr ()
       \<and> requests_of (snd (scan_loop run loads fmt ids tr))
           = requests_of tr @ map contracts_cmd ids
       \<and> sleeps_of (snd (scan_loop run loads fmt ids tr))
           = sleeps_of tr @ replicate (length ids) 500)
   \<and> ((\<forall>tr cmd. run' tr cmd = Inr out) \<and> \<not> str_contains ''decoding bech32 failed'' out \<longrightarrow>
       addr_loop run' parts (c # cs) tr =
         (Inr True, tr @ [Request (smart_cmd (make_addr parts c)),
                          Print (''FOUND MATCH: '' @ make_addr parts c),
                          Print (''Response: '' @ out)]))
   \<and> ((\<forall>tr cmd. run' tr cmd = Inr out) \<and> loads out = Inl e \<longrightarrow>
       scan_loop run' loads fmt ids tr =
         (Inr (), tr @ concat (map (\<lambda>i.
            [Print (''Scanning Code ID '' @ str_int i @ ''...''),
             Request (contracts_cmd i),
             Print (''Error scanning '' @ str_int i @ '': '' @ exn_msg e),
             Sleep 500]) ids)))"
proof -
  have 1: "(\<forall>tr cmd. \<exists>e. run tr cmd = Inl e) \<longrightarrow>
       addr_loop run parts cs tr = (Inr False, tr @ asked parts cs)
       \<and> fst (scan_loop run loads fmt ids tr) = Inr ()
       \<and> requests_of (snd (scan_loop run loads fmt ids tr))
           = requests_of tr @ map contracts_cmd ids
       \<and> sleeps_of (snd (scan_loop run loads fmt ids tr))
           = sleeps_of tr @ replicate (length ids) 500"
    by (simp add: addr_loop_all_raise scan_loop_returns scan_loop_all_raise scan_loop_sleeps)
  have 2: "(\<forall>tr cmd. run' tr cmd = Inr out) \<and> \<not> str_contains ''decoding bech32 failed'' out \<longrightarrow>
       addr_loop run' parts (c # cs) tr =
         (Inr True, tr @ [Request (smart_cmd (make_addr parts c)),
                          Print (''FOUND MATCH: '' @ make_addr parts c),
                          Print (''Response: '' @ out)])"
    by (simp add: check_address_match found_report_def)
  have 3: "(\<forall>tr cmd. run' tr cmd = Inr out) \<and> loads out = Inl e \<longrightarrow>
       scan_loop run' loads fmt ids tr =
         (Inr (), tr @ concat (map (\<lambda>i.
            [Print (''Scanning Code ID '' @ str_int i @ ''...''),
             Request (contracts_cmd i),
             Print (''Error scanning '' @ str_int i @ '': '' @ exn_msg e),
             Sleep 500]) ids))"
    using scan_loop_unparseable [of run' out loads e fmt ids tr] by blast
  from 1 2 3 show ?thesis by (intro conjI)
qed

theorem transport_errors_are_passed_over_witness:
  "addr_loop run_down (''x'', ''y'') ''ab'' [] =
     (Inr False, [Request (smart_cmd ''xay''), Request (smart_cmd ''xby'')])
   \<and> requests_of (snd (scan_loop run_down loads_fail fmt_demo [1, 2] []))
       = [contracts_cmd 1, contracts_cmd 2]
   \<and> sleeps_of (snd (scan_loop run_down loads_fail fmt_demo [1, 2] [])) = [500, 500]
   \<and> addr_loop (run_const '''') (''x'', ''y'') ''ab'' [] =
       (Inr True, [Request (smart_cmd ''xay''), Print ''FOUND MATCH: xay'', Print ''Response: ''])
   \<and> scan_loop (run_const '''') loads_fail fmt_demo [1, 2] [] =
       (Inr (), [Print ''Scanning Code ID 1...'', Request (contracts_cmd 1),
                 Print ''Error scanning 1: Expecting value: line 1 column 1 (char 0)'', Sleep 500,
                 Print ''Scanning Code ID 2...'', Request (contracts_cmd 2),
                 Print ''Error scanning 2: Expecting value: line 1 column 1 (char 0)'', Sleep 500])"
proof -
  note t = transport_errors_are_passed_over
          [of run_down "(''x'', ''y'')" "''b''" "[]" loads_fail fmt_demo "[1, 2]"
              "run_const ''''" "''''" "CHR ''a''"
              "Exn ''JSONDecodeError'' ''Expecting value: line 1 column 1 (char 0)''"]
  note u = transport_errors_are_passed_over
          [of run_down "(''x'', ''y'')" "''ab''" "[]" loads_fail fmt_demo "[1, 2]"
              "run_const ''''" "''''" "CHR ''a''"
              "Exn ''JSONDecodeError'' ''Expecting value: line 1 column 1 (char 0)''"]
  have h1: "\<forall>tr cmd. \<exists>e. run_down tr cmd = Inl e" by (simp add: run_down_def)
  from u [THEN conjunct1] h1
  have "addr_loop run_down (''x'', ''y'') ''ab'' [] = (Inr False, [] @ asked (''x'', ''y'') ''ab'')
       \<and> fst (scan_loop run_down loads_fail fmt_demo [1, 2] []) = Inr ()
       \<and> requests_of (snd (scan_loop run_down loads_fail fmt_demo [1, 2] []))
           = requests_of [] @ map contracts_cmd [1, 2]
       \<and> sleeps_of (snd (scan_loop run_down loads_fail fmt_demo [1, 2] []))
           = sleeps_of [] @ replicate (length [1, 2 :: int]) 500"
    by (rule mp)
  then have a: "addr_loop run_down (''x'', ''y'') ''ab'' [] =
     (Inr False, [Request (smart_cmd ''xay''), Request (smart_cmd ''xby'')])
   \<and> requests_of (snd (scan_loop run_down loads_fail fmt_demo [1, 2] []))
       = [contracts_cmd 1, contracts_cmd 2]
   \<and> sleeps_of (snd (scan_loop run_down loads_fail fmt_demo [1, 2] [])) = [500, 500]"
    by (simp add: asked_def make_addr_def eval_nat_numeral)
  have h2: "(\<forall>tr cmd. run_const '''' tr cmd = Inr '''')
            \<and> \<not> str_contains ''decoding bech32 failed'' ''''"
    by (simp add: run_const_def)
  from t [THEN conjunct2, THEN conjunct1] h2
  have "addr_loop (run_const '''') (''x'', ''y'') (CHR ''a'' # ''b'') [] =
         (Inr True, [] @ [Request (smart_cmd (make_addr (''x'', ''y'') (CHR ''a''))),
                          Print (''FOUND MATCH: '' @ make_addr (''x'', ''y'') (CHR ''a'')),
                          Print (''Response: '' @ '''')])"
    by (rule mp)
  then have b: "addr_loop (run_const '''') (''x'', ''y'') ''ab'' [] =
       (Inr True, [Request (smart_cmd ''xay''), Print ''FOUND MATCH: xay'', Print ''Response: ''])"
    by (simp add: make_addr_def)
  have h3: "(\<forall>tr cmd. run_const '''' tr cmd = Inr '''')
            \<and> loads_fail '''' = Inl (Exn ''JSONDecodeError'' ''Expecting value: line 1 column 1 (char 0)'')"
    by (simp add: run_const_def loads_fail_def)
  have s1: "str_int 1 = ''1''" and s2: "str_int 2 = ''2''"
    by (simp_all add: str_int_def str_nat.simps digit_char_def)
  from t [THEN conjunct2, THEN conjunct2] h3
  have "scan_loop (run_const '''') loads_fail fmt_demo [1, 2] [] =
         (Inr (), [] @ concat (map (\<lambda>i.
            [Print (''Scanning Code ID '' @ str_int i @ ''...''),
             Request (contracts_cmd i),
             Print (''Error scanning '' @ str_int i @ '': '' @ exn_msg (Exn ''JSONDecodeError'' ''Expecting value: line 1 column 1 (char 0)'')),
             Sleep 500]) [1, 2]))"
    by (rule mp)
  then have c: "scan_loop (run_const '''') loads_fail fmt_demo [1, 2] [] =
       (Inr (), [Print ''Scanning Code ID 1...'', Request (contracts_cmd 1),
                 Print ''Error scanning 1: Expecting value: line 1 column 1 (char 0)'', Sleep 500,
                 Print ''Scanning Code ID 2...'', Request (contracts_cmd 2),
                 Print ''Error scanning 2: Expecting value: line 1 column 1 (char 0)'', Sleep 500])"
    by (simp add: s1 s2)
  from a b c show ?thesis by blast
qed

section \<open>Running to the end of the source\<close>





section \<open>No uncaught exception\<close>




section \<open>The numeric source\<close>

lemma range_up_Nil: "stop \<le> start \<Longrightarrow> range_up start stop step = []"
  by (subst range_up.simps) simp

lemma range_up_eq:
  "0 < step \<Longrightarrow>
   range_up start stop step
     = map (\<lambda>k. start + int k * step) [0..<nat ((stop - start + step - 1) div step)]"
proof (induction start stop step rule: range_up.induct)
  case (1 start stop step)
  show ?case
  proof (cases "start < stop")
    case True
    let ?n = "nat ((stop - (start + step) + step - 1) div step)"
    have "0 \<le> (stop - start - 1) div step"
      using True "1.prems" by (simp add: pos_imp_zdiv_nonneg_iff)
    moreover have "(stop - start + step - 1) div step = (stop - start - 1) div step + 1"
      using "1.prems" div_add_self2 [of step "stop - start - 1"] by (simp add: algebra_simps)
    ultimately have n: "nat ((stop - start + step - 1) div step) = Suc ?n"
      by (simp add: algebra_simps nat_add_distrib)
    from True "1.prems" "1.IH"
    have "range_up (start + step) stop step
            = map (\<lambda>k. start + step + int k * step) [0..<?n]"
      by simp
    with True "1.prems" have "range_up start stop step
            = start # map (\<lambda>k. start + step + int k * step) [0..<?n]"
      by (subst range_up.simps) simp
    also have "\<dots> = map (\<lambda>k. start + int k * step) [0..<Suc ?n]"
      by (simp add: map_upt_Suc algebra_simps del: upt_Suc)
    finally show ?thesis by (simp only: n)
  next
    case False
    have "(step - 1) div step = 0"
      using "1.prems" by (simp add: div_pos_pos_trivial)
    moreover from False "1.prems"
    have "(stop - start + step - 1) div step \<le> (step - 1) div step"
      by (intro zdiv_mono1) simp_all
    ultimately have "(stop - start + step - 1) div step \<le> 0" by simp
    with False show ?thesis by (simp add: range_up_Nil)
  qed
qed

lemma ceiling_quotient:
  fixes a b :: int
  assumes "0 < b"
  shows "\<lceil>real_of_int a / real_of_int b\<rceil> = (a + b - 1) div b"
proof (rule ceiling_unique)
  let ?z = "(a + b - 1) div b"
  have eq: "b * ?z + (a + b - 1) mod b = a + b - 1"
    by (rule mult_div_mod_eq)
  from assms have m: "0 \<le> (a + b - 1) mod b" "(a + b - 1) mod b < b"
    by simp_all
  from eq m have "b * ?z < a + b" and "a \<le> b * ?z"
    by linarith+
  then have lo: "(?z - 1) * b < a" and hi: "a \<le> ?z * b"
    by (simp_all add: algebra_simps)
  from lo have "real_of_int ((?z - 1) * b) < real_of_int a"
    by (simp only: of_int_less_iff)
  then have "(real_of_int ?z - 1) * real_of_int b < real_of_int a"
    by simp
  with assms show "real_of_int ?z - 1 < real_of_int a / real_of_int b"
    by (simp add: pos_less_divide_eq)
  from hi have "real_of_int a \<le> real_of_int (?z * b)"
    by (simp only: of_int_le_iff)
  then have "real_of_int a \<le> real_of_int ?z * real_of_int b"
    by simp
  with assms show "real_of_int a / real_of_int b \<le> real_of_int ?z"
    by (simp add: pos_divide_le_eq)
qed

lemma range_up_nth:
  assumes "0 < step" and "k < length (range_up start stop step)"
  shows "range_up start stop step ! k = start + int k * step"
  using assms by (simp add: range_up_eq)

lemma range_up_sorted: "0 < step \<Longrightarrow> sorted_wrt (<) (range_up start stop step)"
  by (simp add: sorted_wrt_iff_nth_less range_up_nth)

lemma range_up_set:
  assumes "0 < step"
  shows "x \<in> set (range_up start stop step)
         \<longleftrightarrow> start \<le> x \<and> x < stop \<and> (x - start) mod step = 0"
  using assms
proof (induction start stop step rule: range_up.induct)
  case (1 start stop step)
  show ?case
  proof (cases "start < stop")
    case True
    with "1.prems" have r: "range_up start stop step = start # range_up (start + step) stop step"
      by (subst range_up.simps) simp
    from True "1.prems" "1.IH"
    have ih: "x \<in> set (range_up (start + step) stop step)
              \<longleftrightarrow> start + step \<le> x \<and> x < stop \<and> (x - (start + step)) mod step = 0"
      by simp
    have "x - (start + step) = (x - start) - step" by simp
    then have m: "(x - (start + step)) mod step = (x - start) mod step"
      by (simp only: minus_mod_self2)
    show ?thesis
    proof (cases "x = start")
      case True
      with \<open>start < stop\<close> r show ?thesis by simp
    next
      case False
      have "start \<le> x \<and> (x - start) mod step = 0 \<longleftrightarrow> start + step \<le> x \<and> (x - start) mod step = 0"
      proof
        assume a: "start \<le> x \<and> (x - start) mod step = 0"
        with False have "0 < x - start" by simp
        moreover from a have "step dvd (x - start)" by (simp add: mod_eq_0_iff_dvd)
        ultimately have "step \<le> x - start" using "1.prems" by (simp add: zdvd_imp_le)
        with a show "start + step \<le> x \<and> (x - start) mod step = 0" by simp
      next
        assume "start + step \<le> x \<and> (x - start) mod step = 0"
        with "1.prems" show "start \<le> x \<and> (x - start) mod step = 0" by simp
      qed
      with False r ih m show ?thesis by auto
    qed
  next
    case False
    then show ?thesis by (auto simp: range_up_Nil)
  qed
qed

subsection \<open>Decimal numerals\<close>

lemma digit_cases: "d < 10 \<Longrightarrow> d \<in> {0, 1, 2, 3, 4, 5, 6, 7, 8, 9::nat}"
  by auto

lemma digit_char_props:
  assumes "d < 10"
  shows "is_digit (digit_char d)" and "digit_val (digit_char d) = d"
    and "(digit_char d = CHR ''0'') = (d = 0)"
  using digit_cases [OF assms]
  by (auto simp: is_digit_def digit_val_def digit_char_def)

lemma is_digit_props:
  assumes "is_digit c"
  shows "digit_val c < 10" and "digit_char (digit_val c) = c" and "c \<noteq> CHR ''-''"
  using assms by (auto simp: is_digit_def digit_val_def digit_char_def)

lemma digits_val_snoc: "digits_val (s @ [c]) = 10 * digits_val s + digit_val c"
  by (simp add: digits_val_def)

lemma str_nat_small: "n < 10 \<Longrightarrow> str_nat n = [digit_char n]"
  by (subst str_nat.simps) simp

lemma str_nat_large:
  "10 \<le> n \<Longrightarrow> str_nat n = str_nat (n div 10) @ [digit_char (n mod 10)]"
  by (subst str_nat.simps) simp

text \<open>str_nat gives digits only, at least one, with no leading zero but for 0, and they
  read back as the number.\<close>

lemma str_nat_props:
  "str_nat n \<noteq> [] \<and> list_all is_digit (str_nat n) \<and> digits_val (str_nat n) = n
   \<and> ((hd (str_nat n) = CHR ''0'') = (n = 0))"
proof (induction n rule: str_nat.induct)
  case (1 n)
  show ?case
  proof (cases "n < 10")
    case True
    then show ?thesis
      by (simp add: str_nat_small digit_char_props digits_val_def)
  next
    case False
    with "1.IH" have ih: "str_nat (n div 10) \<noteq> []" "list_all is_digit (str_nat (n div 10))"
      "digits_val (str_nat (n div 10)) = n div 10"
      "(hd (str_nat (n div 10)) = CHR ''0'') = (n div 10 = 0)"
      by simp_all
    from False have "n div 10 \<noteq> 0" by simp
    with False ih show ?thesis
      by (simp add: str_nat_large digit_char_props digits_val_snoc)
  qed
qed

lemma str_nat_zero: "str_nat 0 = ''0''"
  by (simp add: str_nat_small digit_char_def)

text \<open>The canonical numeral of a number is unique: it is what str_nat gives.\<close>

lemma canonical_nat_unique:
  "s \<noteq> [] \<Longrightarrow> list_all is_digit s \<Longrightarrow> (hd s = CHR ''0'' \<Longrightarrow> s = ''0'') \<Longrightarrow>
   str_nat (digits_val s) = s"
proof (induction s rule: rev_induct)
  case Nil
  then show ?case by simp
next
  case (snoc d xs)
  from snoc.prems have d: "is_digit d" and xs: "list_all is_digit xs" by simp_all
  show ?case
  proof (cases "xs = []")
    case True
    with d show ?thesis
      by (simp add: digits_val_def str_nat_small is_digit_props)
  next
    case False
    have nz: "hd xs \<noteq> CHR ''0''"
    proof
      assume "hd xs = CHR ''0''"
      with False have "hd (xs @ [d]) = CHR ''0''" by simp
      with snoc.prems(3) have "xs @ [d] = ''0''" by blast
      with False show False by (cases xs) simp_all
    qed
    with False xs snoc.IH have ih: "str_nat (digits_val xs) = xs" by simp
    have "digits_val xs \<noteq> 0"
    proof
      assume "digits_val xs = 0"
      with ih have "xs = ''0''" by (simp add: str_nat_zero)
      with nz show False by simp
    qed
    with d have "10 \<le> digits_val (xs @ [d])"
      and "digits_val (xs @ [d]) div 10 = digits_val xs"
      and "digits_val (xs @ [d]) mod 10 = digit_val d"
      by (simp_all add: digits_val_snoc is_digit_props)
    with ih d show ?thesis
      by (simp add: str_nat_large is_digit_props)
  qed
qed

lemma str_int_canonical: "canonical_decimal (str_int i) \<and> int_of_dec (str_int i) = Some i"
proof (cases "i < 0")
  case True
  then have "nat (- i) \<noteq> 0" by simp
  with str_nat_props [of "nat (- i)"] True show ?thesis
    by (simp add: str_int_def canonical_decimal_def int_of_dec_def nat_of_dec_def)
next
  case False
  from str_nat_props [of "nat i"] obtain c cs where
    s: "str_nat (nat i) = c # cs" and c: "is_digit c"
    by (cases "str_nat (nat i)") auto
  from c have m: "c \<noteq> CHR ''-''" by (simp add: is_digit_props)
  have z: "cs = []" if "c = CHR ''0''"
  proof -
    from that s str_nat_props [of "nat i"] have "nat i = 0" by simp
    with s show ?thesis by (simp add: str_nat_zero)
  qed
  from s m z False str_nat_props [of "nat i"] show ?thesis
    by (simp add: str_int_def canonical_decimal_def int_of_dec_def nat_of_dec_def)
qed

lemma canonical_decimal_unique:
  assumes "canonical_decimal s" and "int_of_dec s = Some i"
  shows "s = str_int i"
proof (cases s)
  case Nil
  with assms(1) show ?thesis by (simp add: canonical_decimal_def)
next
  case (Cons c cs)
  show ?thesis
  proof (cases "c = CHR ''-''")
    case True
    with Cons assms(1) have cs: "cs \<noteq> []" "list_all is_digit cs" "hd cs \<noteq> CHR ''0''"
      by (simp_all add: canonical_decimal_def)
    then have u: "str_nat (digits_val cs) = cs" by (intro canonical_nat_unique) simp_all
    have "digits_val cs \<noteq> 0"
    proof
      assume "digits_val cs = 0"
      with u have "cs = ''0''" by (simp add: str_nat_zero)
      with cs(3) show False by simp
    qed
    moreover from True Cons assms(2) cs have "i = - int (digits_val cs)"
      by (simp add: int_of_dec_def nat_of_dec_def)
    ultimately show ?thesis using u True Cons by (simp add: str_int_def)
  next
    case False
    with Cons assms(1) have d: "list_all is_digit s" and z: "c = CHR ''0'' \<Longrightarrow> cs = []"
      by (simp_all add: canonical_decimal_def split: if_splits)
    from z Cons have "hd s = CHR ''0'' \<Longrightarrow> s = ''0''" by simp
    with d Cons have u: "str_nat (digits_val s) = s" by (intro canonical_nat_unique) simp_all
    from False Cons assms(2) d have "i = int (digits_val s)"
      by (simp add: int_of_dec_def nat_of_dec_def)
    with u show ?thesis by (simp add: str_int_def)
  qed
qed

text \<open>
  Claim C5. For a step of at least 1, \<^verbatim>\<open>range(start, end + 1, step)\<close> has
  \<open>\<lceil>(end - start + 1) / step\<rceil>\<close> elements (as a count: none where the range is empty); the
  \<open>k\<close>-th is \<open>start + k * step\<close>; they are strictly increasing; they are exactly the
  integers from \<open>start\<close> to \<open>end\<close> at a multiple of \<open>step\<close> from \<open>start\<close>. The scanner's loop
  over them issues its contracts-list requests for exactly these integers, in this order,
  and each request carries the integer as \<open>str_int\<close> renders it: the one canonical decimal
  numeral that reads as the integer. The script's own range, \<^verbatim>\<open>range(1, 100)\<close>, is the
  case of start 1, end 99 and step 1, with 99 candidates.
\<close>

theorem numeric_enumeration:
  assumes "1 \<le> step"
  shows "length (range_up start (end + 1) step)
           = nat \<lceil>real_of_int (end - start + 1) / real_of_int step\<rceil>
       \<and> (\<forall>k<length (range_up start (end + 1) step).
             range_up start (end + 1) step ! k = start + int k * step)
       \<and> sorted_wrt (<) (range_up start (end + 1) step)
       \<and> (\<forall>x. x \<in> set (range_up start (end + 1) step)
              \<longleftrightarrow> start \<le> x \<and> x \<le> end \<and> (x - start) mod step = 0)
       \<and> filter is_code_request
             (snd (scan_loop run loads fmt (range_up start (end + 1) step) []))
           = map (\<lambda>x. Request (contracts_cmd x)) (range_up start (end + 1) step)
       \<and> (\<forall>x. contracts_cmd x ! 4
                = ''https://rest.stargaze-apis.com/cosmwasm/wasm/v1/code/'' @ str_int x
                    @ ''/contracts?pagination.limit=1'')
       \<and> (\<forall>x. canonical_decimal (str_int x) \<and> int_of_dec (str_int x) = Some x
              \<and> (\<forall>s. canonical_decimal s \<and> int_of_dec s = Some x \<longrightarrow> s = str_int x))
       \<and> find_marketplace run loads fmt = scan_loop run loads fmt (range_up 1 (99 + 1) 1) []
       \<and> int (length (range_up 1 (99 + 1) 1)) = \<lceil>real_of_int (99 - 1 + 1) / real_of_int 1\<rceil>"
proof -
  let ?xs = "range_up start (end + 1) step"
  from assms have pos: "0 < step" by simp
  have xs: "?xs = map (\<lambda>k. start + int k * step) [0..<nat ((end - start + step) div step)]"
    using range_up_eq [OF pos, of start "end + 1"] by (simp add: algebra_simps)
  have c: "\<lceil>real_of_int (end - start + 1) / real_of_int step\<rceil> = (end - start + step) div step"
    using ceiling_quotient [OF pos, of "end - start + 1"] by (simp add: algebra_simps)
  have "length ?xs = nat ((end - start + step) div step)"
    by (simp add: xs)
  then have 1: "length ?xs = nat \<lceil>real_of_int (end - start + 1) / real_of_int step\<rceil>"
    by (simp only: c)
  have 2: "\<forall>k<length ?xs. ?xs ! k = start + int k * step"
    using pos by (simp add: range_up_nth)
  have 3: "sorted_wrt (<) ?xs"
    using pos by (rule range_up_sorted)
  have 4: "\<forall>x. x \<in> set ?xs \<longleftrightarrow> start \<le> x \<and> x \<le> end \<and> (x - start) mod step = 0"
    using range_up_set [OF pos, of _ start "end + 1"] by auto
  have 5: "filter is_code_request (snd (scan_loop run loads fmt ?xs []))
           = map (\<lambda>x. Request (contracts_cmd x)) ?xs"
    by (simp add: scan_loop_code_requests)
  have 6: "\<forall>x. contracts_cmd x ! 4
                = ''https://rest.stargaze-apis.com/cosmwasm/wasm/v1/code/'' @ str_int x
                    @ ''/contracts?pagination.limit=1''"
    by (simp add: contracts_cmd_def contracts_url_def)
  have 7: "\<forall>x. canonical_decimal (str_int x) \<and> int_of_dec (str_int x) = Some x
              \<and> (\<forall>s. canonical_decimal s \<and> int_of_dec s = Some x \<longrightarrow> s = str_int x)"
    using str_int_canonical canonical_decimal_unique by blast
  have 8: "find_marketplace run loads fmt = scan_loop run loads fmt (range_up 1 (99 + 1) 1) []"
    by (simp add: find_marketplace_def)
  have "range_up 1 (99 + 1) 1 = map (\<lambda>k. 1 + int k * 1) [0..<nat ((99 + 1 - 1 + 1 - 1) div 1)]"
    by (rule range_up_eq) simp
  then have "int (length (range_up 1 (99 + 1) 1)) = 99" by simp
  then have 9: "int (length (range_up 1 (99 + 1) 1))
                  = \<lceil>real_of_int (99 - 1 + 1) / real_of_int 1\<rceil>"
    by simp
  from 1 2 3 4 5 6 7 8 9 show ?thesis by (intro conjI)
qed

theorem numeric_enumeration_witness:
  "(1::int) \<le> 1
   \<and> length (range_up 1 (99 + 1) 1) = 99
   \<and> range_up 1 (99 + 1) 1 ! 98 = 99
   \<and> sorted_wrt (<) (range_up 1 (99 + 1) 1)
   \<and> 42 \<in> set (range_up 1 (99 + 1) 1)
   \<and> 100 \<notin> set (range_up 1 (99 + 1) 1)
   \<and> str_int 42 = ''42''
   \<and> filter is_code_request (snd (find_marketplace run_demo loads_demo fmt_demo))
       = map (\<lambda>x. Request (contracts_cmd x)) (range_up 1 (99 + 1) 1)"
proof -
  have h: "(1::int) \<le> 1" by simp
  note t = numeric_enumeration [OF h, of 1 99 run_demo loads_demo fmt_demo]
  note t1 = t [THEN conjunct1]
  note t2 = t [THEN conjunct2, THEN conjunct1, rule_format]
  note t3 = t [THEN conjunct2, THEN conjunct2, THEN conjunct1]
  note t4 = t [THEN conjunct2, THEN conjunct2, THEN conjunct2, THEN conjunct1, rule_format]
  note t5 = t [THEN conjunct2, THEN conjunct2, THEN conjunct2, THEN conjunct2, THEN conjunct1]
  note t7 = t [THEN conjunct2, THEN conjunct2, THEN conjunct2, THEN conjunct2, THEN conjunct2,
               THEN conjunct2, THEN conjunct1, rule_format]
  note t8 = t [THEN conjunct2, THEN conjunct2, THEN conjunct2, THEN conjunct2, THEN conjunct2,
               THEN conjunct2, THEN conjunct2, THEN conjunct1]
  have "nat \<lceil>real_of_int (99 - 1 + 1) / real_of_int 1\<rceil> = 99" by simp
  with t1 have l: "length (range_up 1 (99 + 1) 1) = 99" by (simp only:)
  then have "98 < length (range_up 1 (99 + 1) 1)" by linarith
  then have "range_up 1 (99 + 1) 1 ! 98 = 1 + int 98 * 1" by (rule t2)
  then have n: "range_up 1 (99 + 1) 1 ! 98 = 99" by simp
  have "(1::int) \<le> 42 \<and> (42::int) \<le> 99 \<and> ((42::int) - 1) mod 1 = 0" by simp
  then have i: "42 \<in> set (range_up 1 (99 + 1) 1)" by (simp only: t4)
  have o: "100 \<notin> set (range_up 1 (99 + 1) 1)"
  proof
    assume "100 \<in> set (range_up 1 (99 + 1) 1)"
    then have "(1::int) \<le> 100 \<and> (100::int) \<le> 99 \<and> ((100::int) - 1) mod 1 = 0"
      by (simp only: t4)
    then show False by simp
  qed
  have "canonical_decimal ''42'' \<and> int_of_dec ''42'' = Some 42"
    by (simp add: canonical_decimal_def int_of_dec_def nat_of_dec_def is_digit_def
          digits_val_def digit_val_def)
  with t7 [of 42] have r: "str_int 42 = ''42''" by simp
  from t5 t8 have f: "filter is_code_request (snd (find_marketplace run_demo loads_demo fmt_demo))
       = map (\<lambda>x. Request (contracts_cmd x)) (range_up 1 (99 + 1) 1)"
    by (simp only:)
  from h l n t3 i o r f show ?thesis by (intro conjI)
qed

section \<open>Pacing of the scanner\<close>

text \<open>
  Claim C8, as stated, fails: within one iteration the contract query follows the
  contracts-list request with no sleep in between, as on the small chain for code 1.
\<close>

theorem pacing_every_request_counterexample:
  "\<not> burst_ok 1 500 0 (snd (find_marketplace run_demo loads_demo fmt_demo))"
proof -
  have "range_up 1 100 1 = 1 # 2 # range_up 3 100 1"
    by (simp add: range_up_Cons)
  then have "find_marketplace run_demo loads_demo fmt_demo =
     scan_loop run_demo loads_demo fmt_demo (range_up 3 100 1)
     [Print ''Scanning Code ID 1...'', Request (contracts_cmd 1),
      Print ''Code 1 has contract: stars1abc'', Request (smart_cmd ''stars1abc''),
      Print (''Contract stars1abc Config: '' @ demo_config), Sleep 500,
      Print ''Scanning Code ID 2...'', Request (contracts_cmd 2), Sleep 500]"
    by (simp only: find_marketplace_def demo_first_two)
  moreover from scan_loop_extends obtain ext where
    "snd (scan_loop run_demo loads_demo fmt_demo (range_up 3 100 1)
     [Print ''Scanning Code ID 1...'', Request (contracts_cmd 1),
      Print ''Code 1 has contract: stars1abc'', Request (smart_cmd ''stars1abc''),
      Print (''Contract stars1abc Config: '' @ demo_config), Sleep 500,
      Print ''Scanning Code ID 2...'', Request (contracts_cmd 2), Sleep 500])
     = [Print ''Scanning Code ID 1...'', Request (contracts_cmd 1),
      Print ''Code 1 has contract: stars1abc'', Request (smart_cmd ''stars1abc''),
      Print (''Contract stars1abc Config: '' @ demo_config), Sleep 500,
      Print ''Scanning Code ID 2...'', Request (contracts_cmd 2), Sleep 500] @ ext"
    by blast
  ultimately show ?thesis by simp
qed

lemma no_sleep_filter:
  "sleeps_of rest = [] \<Longrightarrow> filter is_code_request rest = [] \<Longrightarrow>
   filter (\<lambda>ev. is_code_request ev \<or> ev = Sleep ms) rest = []"
  by (induction rest) (auto split: event.splits if_splits)

lemma scan_loop_alternation:
  "filter (\<lambda>ev. is_code_request ev \<or> ev = Sleep 500) (snd (scan_loop run loads fmt ids tr))
   = filter (\<lambda>ev. is_code_request ev \<or> ev = Sleep 500) tr
     @ concat (map (\<lambda>i. [Request (contracts_cmd i), Sleep 500]) ids)"
proof (induction ids arbitrary: tr)
  case Nil
  then show ?case by simp
next
  case (Cons i ids)
  from scan_code_id_shape [of run loads fmt i tr]
  obtain rest where s: "scan_code_id run loads fmt i tr =
            (Inr (), tr @ Print (''Scanning Code ID '' @ str_int i @ ''...'')
                        # Request (contracts_cmd i) # rest)"
    and r: "sleeps_of rest = []" "filter is_code_request rest = []" by blast
  have p: "\<not> is_code_request (Print s)" for s
    by (simp add: is_code_request_def)
  from s Cons.IH [of "(tr @ Print (''Scanning Code ID '' @ str_int i @ ''...'')
                        # Request (contracts_cmd i) # rest) @ [Sleep 500]"]
       no_sleep_filter [OF r, of 500]
  show ?case by (simp add: p is_code_request_contracts_cmd)
qed

text \<open>
  Claim C8, amended. The scanner sleeps 500 ms once after every code ID, 99 times in all:
  the contracts-list requests and the sleeps alternate, so the list requests of two
  consecutive code IDs are always a sleep apart. The contract query of a code ID is issued
  right after its list request, so that up to two requests, and never more, come between
  two sleeps.
\<close>

theorem scanner_sleeps_once_per_code_id:
  "filter (\<lambda>ev. is_code_request ev \<or> ev = Sleep 500) (snd (find_marketplace run loads fmt))
     = concat (map (\<lambda>i. [Request (contracts_cmd i), Sleep 500]) (range_up 1 100 1))
   \<and> sleeps_of (snd (find_marketplace run loads fmt)) = replicate 99 500
   \<and> burst_ok 2 500 0 (snd (find_marketplace run loads fmt))"
proof -
  have "length (range_up 1 100 1) = 99"
    by (simp add: range_up_Cons range_up_Nil)
  moreover from scan_loop_burst [of 0 "[]" run loads fmt "range_up 1 100 1"]
  have "burst_ok 2 500 0 (snd (find_marketplace run loads fmt))"
    by (simp add: find_marketplace_def)
  ultimately show ?thesis
    by (simp add: find_marketplace_def scan_loop_alternation scan_loop_sleeps)
qed

theorem scanner_sleeps_once_per_code_id_witness:
  "burst_ok 2 500 0 (snd (find_marketplace run_demo loads_demo fmt_demo))
   \<and> take 4 (filter (\<lambda>ev. is_code_request ev \<or> ev = Sleep 500)
               (snd (find_marketplace run_demo loads_demo fmt_demo)))
     = [Request (contracts_cmd 1), Sleep 500, Request (contracts_cmd 2), Sleep 500]"
  using scanner_sleeps_once_per_code_id [of run_demo loads_demo fmt_demo]
  by (simp add: range_up_Cons)

section \<open>One contract per code ID\<close>

text \<open>
  Claim C10. The contracts-list URL ends in \<^verbatim>\<open>?pagination.limit=1\<close>. One call of
  \<^verbatim>\<open>scan_code_id\<close> issues that request and at most one more. When the body parses to an
  object whose \<^verbatim>\<open>contracts\<close> is a non-empty list, the second request is the config query
  of the first element, whatever follows it in the list. When the body does not parse, or
  has no \<^verbatim>\<open>contracts\<close>, or an empty list, there is no second request.
\<close>

theorem one_contract_per_code_id:
  "suffix ''?pagination.limit=1'' (contracts_url i)
   \<and> contracts_cmd i ! 4 = contracts_url i
   \<and> (\<exists>rest. requests_of (snd (scan_code_id run loads fmt i tr))
              = requests_of tr @ contracts_cmd i # rest \<and> length rest \<le> 1)
   \<and> (run (tr @ [Print (''Scanning Code ID '' @ str_int i @ ''...'')]) (contracts_cmd i) = Inr out
        \<and> loads out = Inr (JObj kvs) \<and> map_of kvs ''contracts'' = Some (JArr (a # more)) \<longrightarrow>
      requests_of (snd (scan_code_id run loads fmt i tr))
        = requests_of tr @ [contracts_cmd i, smart_cmd (py_format fmt a)])
   \<and> (run (tr @ [Print (''Scanning Code ID '' @ str_int i @ ''...'')]) (contracts_cmd i) = Inr out
        \<and> (loads out = Inl e
            \<or> loads out = Inr (JObj kvs) \<and> map_of kvs ''contracts'' = None
            \<or> loads out = Inr (JObj kvs) \<and> map_of kvs ''contracts'' = Some (JArr [])) \<longrightarrow>
      requests_of (snd (scan_code_id run loads fmt i tr)) = requests_of tr @ [contracts_cmd i])"
proof -
  have 1: "suffix ''?pagination.limit=1'' (contracts_url i)"
    by (simp add: contracts_url_def suffix_def)
  have 2: "contracts_cmd i ! 4 = contracts_url i"
    by (simp add: contracts_cmd_def)
  from scan_code_id_shape [of run loads fmt i tr]
  obtain rest where s: "scan_code_id run loads fmt i tr =
            (Inr (), tr @ Print (''Scanning Code ID '' @ str_int i @ ''...'')
                        # Request (contracts_cmd i) # rest)"
    and r: "length (requests_of rest) \<le> 1" by blast
  then have "requests_of (snd (scan_code_id run loads fmt i tr))
              = requests_of tr @ contracts_cmd i # requests_of rest"
    by (simp add: requests_of_append)
  with r have 3: "\<exists>rest. requests_of (snd (scan_code_id run loads fmt i tr))
              = requests_of tr @ contracts_cmd i # rest \<and> length rest \<le> 1"
    by blast
  have 4: "run (tr @ [Print (''Scanning Code ID '' @ str_int i @ ''...'')]) (contracts_cmd i) = Inr out
        \<and> loads out = Inr (JObj kvs) \<and> map_of kvs ''contracts'' = Some (JArr (a # more)) \<longrightarrow>
      requests_of (snd (scan_code_id run loads fmt i tr))
        = requests_of tr @ [contracts_cmd i, smart_cmd (py_format fmt a)]"
    by (auto simp: scan_code_id_def scan_code_id_try_def subprocess_run_def check_contract_eq
          requests_of_append split: sum.splits)
  have 5: "run (tr @ [Print (''Scanning Code ID '' @ str_int i @ ''...'')]) (contracts_cmd i) = Inr out
        \<and> (loads out = Inl e
            \<or> loads out = Inr (JObj kvs) \<and> map_of kvs ''contracts'' = None
            \<or> loads out = Inr (JObj kvs) \<and> map_of kvs ''contracts'' = Some (JArr [])) \<longrightarrow>
      requests_of (snd (scan_code_id run loads fmt i tr)) = requests_of tr @ [contracts_cmd i]"
    by (auto simp: scan_code_id_def scan_code_id_try_def subprocess_run_def
          requests_of_append split: sum.splits)
  from 1 2 3 4 5 show ?thesis by blast
qed

theorem one_contract_per_code_id_witness:
  "requests_of (snd (scan_code_id (run_const demo_two_contracts) loads_two fmt_demo 7 []))
     = [contracts_cmd 7, smart_cmd ''stars1abc'']
   \<and> requests_of (snd (scan_code_id (run_const ''<html>Bad Gateway</html>'') loads_two fmt_demo 7 []))
     = [contracts_cmd 7]"
proof -
  have a: "requests_of (snd (scan_code_id (run_const demo_two_contracts) loads_two fmt_demo 7 []))
     = [contracts_cmd 7, smart_cmd ''stars1abc'']"
    using one_contract_per_code_id
            [of 7 "run_const demo_two_contracts" loads_two fmt_demo "[]" demo_two_contracts
                "[(''contracts'', JArr [JStr ''stars1abc'', JStr ''stars1xyz''])]"
                "JStr ''stars1abc''" "[JStr ''stars1xyz'']"]
    by (simp add: run_const_def loads_two_def)
  have b: "requests_of (snd (scan_code_id (run_const ''<html>Bad Gateway</html>'') loads_two fmt_demo 7 []))
     = [contracts_cmd 7]"
    using one_contract_per_code_id
            [of 7 "run_const ''<html>Bad Gateway</html>''" loads_two fmt_demo "[]"
                "''<html>Bad Gateway</html>''" "[]" JNull "[]"
                "Exn ''JSONDecodeError'' ''Expecting value: line 1 column 1 (char 0)''"]
    by (simp add: run_const_def loads_two_def demo_two_contracts_def)
  from a b show ?thesis by blast
qed

end
